theory Spec2Isabelle
  imports Complex_Main
begin

section \<open>Host text operations\<close>

text \<open>
  The interpreter of \<^verbatim>\<open>src/learning/lib/simple-lisp.ts\<close> works on JavaScript strings.
  A string is modelled as a \<^typ>\<open>string\<close> of ASCII characters: the white space of the
  regular expression \<^verbatim>\<open>\s\<close> and of \<^verbatim>\<open>trim\<close> is the six ASCII white-space characters, and
  \<^verbatim>\<open>toLowerCase\<close> maps \<^verbatim>\<open>A\<close>..\<^verbatim>\<open>Z\<close> to \<^verbatim>\<open>a\<close>..\<^verbatim>\<open>z\<close>. Characters beyond ASCII are outside the
  model.
\<close>

definition quote_char :: char where
  "quote_char = CHR 0x27"

definition is_space :: "char \<Rightarrow> bool" where
  "is_space c = (c = CHR 0x09 \<or> c = CHR 0x0A \<or> c = CHR 0x0B \<or> c = CHR 0x0C
                 \<or> c = CHR 0x0D \<or> c = CHR '' '')"

definition lower_char :: "char \<Rightarrow> char" where
  "lower_char c =
     (let n = (of_char c :: nat) in if 65 \<le> n \<and> n \<le> 90 then char_of (n + 32) else c)"

definition toLowerCase :: "string \<Rightarrow> string" where
  "toLowerCase s = map lower_char s"

definition trim :: "string \<Rightarrow> string" where
  "trim s = rev (dropWhile is_space (rev (dropWhile is_space s)))"

text \<open>\<^verbatim>\<open>Array.prototype.join\<close> on an array of strings.\<close>

fun join :: "string \<Rightarrow> string list \<Rightarrow> string" where
  "join sep [] = []"
| "join sep [x] = x"
| "join sep (x # y # ys) = x @ sep @ join sep (y # ys)"

text \<open>\<^verbatim>\<open>s.replace(/c/g, r)\<close> for a single character \<open>c\<close>.\<close>

definition replace_all :: "char \<Rightarrow> string \<Rightarrow> string \<Rightarrow> string" where
  "replace_all c r s = concat (map (\<lambda>x. if x = c then r else [x]) s)"

text \<open>
  \<^verbatim>\<open>s.split(/\s+/)\<close>: the pieces between the maximal runs of white space; a run at the
  start or at the end leaves an empty piece there, and the empty string gives one empty
  piece. The first argument is the piece read so far, reversed.
\<close>

function split_ws :: "string \<Rightarrow> string \<Rightarrow> string list" where
  "split_ws cur [] = [rev cur]"
| "split_ws cur (c # cs) =
     (if is_space c then rev cur # split_ws [] (dropWhile is_space cs)
      else split_ws (c # cur) cs)"
  by pat_completeness auto
termination
  by (relation "measure (\<lambda>(cur, s). length s)")
     (auto simp: le_imp_less_Suc length_dropWhile_le)

section \<open>Host numbers\<close>

text \<open>
  A JavaScript number is a double. The model keeps the three special values apart and
  takes a finite number as its exact rational value: rounding to 53 bits, overflow to
  infinity and the negative zero are not modelled. The model agrees with the host on the
  integers of magnitude below \<open>2^53\<close>, which every claim below stays within.
\<close>

datatype jsnum = Fin rat | NaN | PosInf | NegInf

definition isNaN :: "jsnum \<Rightarrow> bool" where
  "isNaN x = (x = NaN)"

definition is_digit :: "char \<Rightarrow> bool" where
  "is_digit c = (let n = (of_char c :: nat) in 48 \<le> n \<and> n \<le> 57)"

definition digit_val :: "char \<Rightarrow> nat" where
  "digit_val c = of_char c - 48"

definition digit_char :: "nat \<Rightarrow> char" where
  "digit_char d = char_of (48 + d)"

text \<open>The value of a hexadecimal digit; octal and binary digits are those below the radix.\<close>

definition hex_val :: "char \<Rightarrow> nat option" where
  "hex_val c =
     (let n = (of_char c :: nat) in
      if 48 \<le> n \<and> n \<le> 57 then Some (n - 48)
      else if 97 \<le> n \<and> n \<le> 102 then Some (n - 87)
      else if 65 \<le> n \<and> n \<le> 70 then Some (n - 55)
      else None)"

definition radix_digits :: "nat \<Rightarrow> string \<Rightarrow> bool" where
  "radix_digits r s =
     (s \<noteq> [] \<and> list_all (\<lambda>c. case hex_val c of None \<Rightarrow> False | Some d \<Rightarrow> d < r) s)"

definition radix_value :: "nat \<Rightarrow> string \<Rightarrow> nat" where
  "radix_value r s = foldl (\<lambda>a c. a * r + (case hex_val c of None \<Rightarrow> 0 | Some d \<Rightarrow> d)) 0 s"

definition decimal_value :: "string \<Rightarrow> nat" where
  "decimal_value s = foldl (\<lambda>a c. a * 10 + digit_val c) 0 s"

text \<open>
  \<^verbatim>\<open>NonDecimalIntegerLiteral\<close> of the host's string-to-number grammar: \<^verbatim>\<open>0x\<close>, \<^verbatim>\<open>0o\<close> or
  \<^verbatim>\<open>0b\<close> (either case) before at least one digit of the radix, with no sign.
\<close>

definition non_decimal :: "string \<Rightarrow> nat option" where
  "non_decimal s =
     (case s of
        z # p # ds \<Rightarrow>
          (let r = (if p = CHR ''x'' \<or> p = CHR ''X'' then 16
                    else if p = CHR ''o'' \<or> p = CHR ''O'' then 8
                    else if p = CHR ''b'' \<or> p = CHR ''B'' then 2 else (0::nat))
           in if z = CHR ''0'' \<and> 0 < r \<and> radix_digits r ds then Some (radix_value r ds)
              else None)
      | _ \<Rightarrow> None)"

text \<open>The text before the first character satisfying \<open>p\<close>, and the text after it if any.\<close>

definition split_at :: "(char \<Rightarrow> bool) \<Rightarrow> string \<Rightarrow> string \<times> string option" where
  "split_at p s =
     (case dropWhile (\<lambda>c. \<not> p c) s of
        [] \<Rightarrow> (s, None)
      | _ # rest \<Rightarrow> (takeWhile (\<lambda>c. \<not> p c) s, Some rest))"

text \<open>\<^verbatim>\<open>SignedInteger\<close>: an optional sign before at least one decimal digit.\<close>

definition signed_integer :: "string \<Rightarrow> int option" where
  "signed_integer s =
     (let (neg, ds) = (case s of
                         c # r \<Rightarrow> if c = CHR ''-'' then (True, r)
                                  else if c = CHR ''+'' then (False, r) else (False, s)
                       | [] \<Rightarrow> (False, s))
      in if ds \<noteq> [] \<and> list_all is_digit ds
         then Some (if neg then - int (decimal_value ds) else int (decimal_value ds))
         else None)"

text \<open>
  \<^verbatim>\<open>StrUnsignedDecimalLiteral\<close> without \<^verbatim>\<open>Infinity\<close>: digits with an optional fraction and
  an optional exponent part; one of the integer and the fraction digits may be missing
  when the point is there.
\<close>

definition unsigned_decimal :: "string \<Rightarrow> rat option" where
  "unsigned_decimal s =
     (let (m, ex) = split_at (\<lambda>c. c = CHR ''e'' \<or> c = CHR ''E'') s;
          (ip, fp) = split_at (\<lambda>c. c = CHR ''.'') m;
          fd = (case fp of None \<Rightarrow> [] | Some f \<Rightarrow> f);
          e = (case ex of None \<Rightarrow> Some 0 | Some t \<Rightarrow> signed_integer t)
      in if list_all is_digit ip \<and> list_all is_digit fd \<and> (ip \<noteq> [] \<or> fd \<noteq> [])
         then (case e of
                 None \<Rightarrow> None
               | Some x \<Rightarrow>
                   (let mant = of_nat (decimal_value ip)
                               + of_nat (decimal_value fd) / 10 ^ length fd
                    in Some (if 0 \<le> x then mant * 10 ^ nat x else mant / 10 ^ nat (- x))))
         else None)"

text \<open>
  \<^verbatim>\<open>Number(s)\<close> on a string: white space around the literal is dropped, the empty text
  is zero, and a text that is no numeric literal is \<^verbatim>\<open>NaN\<close>.
\<close>

definition Number :: "string \<Rightarrow> jsnum" where
  "Number s =
     (let t = trim s in
      if t = [] then Fin 0
      else case non_decimal t of
             Some n \<Rightarrow> Fin (of_nat n)
           | None \<Rightarrow>
               (let (neg, u) = (case t of
                                  c # r \<Rightarrow> if c = CHR ''-'' then (True, r)
                                           else if c = CHR ''+'' then (False, r)
                                           else (False, t)
                                | [] \<Rightarrow> (False, t))
                in if u = ''Infinity'' then (if neg then NegInf else PosInf)
                   else case unsigned_decimal u of
                          None \<Rightarrow> NaN
                        | Some q \<Rightarrow> Fin (if neg then - q else q)))"

text \<open>
  \<^verbatim>\<open>x.toString()\<close>. An integer prints as its decimal digits; another finite number prints
  in fixed notation with at most 17 fraction digits, which is the host's text for short
  decimals such as \<^verbatim>\<open>1.5\<close> (the host's exponent notation and shortest-digits rounding are
  not modelled).
\<close>

function show_nat :: "nat \<Rightarrow> string" where
  "show_nat n = (if n < 10 then [digit_char n] else show_nat (n div 10) @ [digit_char (n mod 10)])"
  by pat_completeness auto
termination
  by (relation "measure id") auto

declare show_nat.simps [simp del]

fun frac_digits :: "nat \<Rightarrow> rat \<Rightarrow> string" where
  "frac_digits 0 r = []"
| "frac_digits (Suc k) r =
     (if r = 0 then []
      else (let d = nat \<lfloor>r * 10\<rfloor> in digit_char d # frac_digits k (r * 10 - of_nat d)))"

definition show_finite :: "rat \<Rightarrow> string" where
  "show_finite q =
     (let a = \<bar>q\<bar>; i = nat \<lfloor>a\<rfloor>; sgn = (if q < 0 then ''-'' else [])
      in if of_nat i = a then sgn @ show_nat i
         else sgn @ show_nat i @ ''.'' @ frac_digits 17 (a - of_nat i))"

fun toString :: "jsnum \<Rightarrow> string" where
  "toString (Fin q) = show_finite q"
| "toString NaN = ''NaN''"
| "toString PosInf = ''Infinity''"
| "toString NegInf = ''-Infinity''"

section \<open>Values and the printer\<close>

text \<open>
  \<^verbatim>\<open>LispValue = number | string | boolean | null | LispValue[]\<close>, and \<^verbatim>\<open>undefined\<close>, which
  the code produces when it reads past the end of an array. An array is an object: two
  arrays with the same elements are still two objects, and \<^verbatim>\<open>===\<close> tells them apart. The
  natural number of \<open>Arr\<close> is the identity of the array, given when the array is created;
  no array is changed after it has been built, so equal identities carry equal elements.
\<close>

datatype val = Num jsnum | Str string | Bool bool | Null | Undefined | Arr nat "val list"

fun stringify :: "val \<Rightarrow> string" where
  "stringify Null = ''NIL''"
| "stringify (Bool b) = (if b then ''T'' else ''NIL'')"
| "stringify (Num x) = toString x"
| "stringify (Str s) = s"
| "stringify (Arr i vs) = ''('' @ join '' '' (map stringify vs) @ '')''"
| "stringify Undefined = ''undefined''"

section \<open>Tokenizer and parser\<close>

definition tokenize :: "string \<Rightarrow> string list" where
  "tokenize input =
     filter (\<lambda>token. length token > 0)
       (split_ws []
         (trim
           (replace_all quote_char ('' '' @ [quote_char] @ '' '')
             (replace_all (CHR '')'') '' ) ''
               (replace_all (CHR ''('') '' ( '' input)))))"

text \<open>
  The errors the code throws: its own \<^verbatim>\<open>Error\<close>s, named after their messages, and the
  host's \<^verbatim>\<open>TypeError\<close>. The last two are no errors of the code. \<open>FuelExhausted\<close> is the
  result of the evaluator of the model when its recursion bound is reached. \<open>Unmodelled\<close>
  is its result where the code goes on with an object of the host that \<^verbatim>\<open>LispValue\<close> does
  not have: the value of the symbol \<^verbatim>\<open>__proto__\<close>, the call of a function that an
  environment inherits from \<^verbatim>\<open>Object.prototype\<close>, and an environment whose prototype has
  been replaced.
\<close>

datatype error =
    UnmatchedOpening
  | UnexpectedClosing
  | UndefinedSymbol string
  | FunctionAsValue string
  | NotAFunction string
  | CannotEvaluate string
  | TypeError
  | FuelExhausted
  | Unmodelled

text \<open>
  \<^verbatim>\<open>parseExpression(tokens, index)\<close> returns the expression and the next index; the
  third argument and result is the identity the next new array gets. \<open>parseList\<close> is the
  \<^verbatim>\<open>while\<close> loop of the list branch with the test after it. Past the end of the tokens
  \<^verbatim>\<open>tokens[index]\<close> is \<^verbatim>\<open>undefined\<close>: it is none of the three markers, \<^verbatim>\<open>Number(undefined)\<close> is
  \<^verbatim>\<open>NaN\<close>, and \<^verbatim>\<open>token.toLowerCase()\<close> throws the host's \<^verbatim>\<open>TypeError\<close>. The \<open>max\<close> in the loops
  of \<open>parseList\<close> and \<open>parse_from\<close> only serves the termination proofs: \<open>parseList_unfold\<close>
  and \<open>parse_from_unfold\<close> below remove it.
\<close>

function parseExpression :: "string list \<Rightarrow> nat \<Rightarrow> nat \<Rightarrow> error + (val \<times> nat \<times> nat)"
  and parseList :: "string list \<Rightarrow> nat \<Rightarrow> nat \<Rightarrow> val list \<Rightarrow> error + (val list \<times> nat \<times> nat)"
where
  "parseExpression tokens index k =
     (if index < length tokens then
        (let token = tokens ! index in
         if token = ''('' then
           (case parseList tokens (index + 1) (k + 1) [] of
              Inl e \<Rightarrow> Inl e
            | Inr (list, i, k') \<Rightarrow> Inr (Arr k list, i + 1, k'))
         else if token = '')'' then Inl UnexpectedClosing
         else if token = [quote_char] then
           (case parseExpression tokens (index + 1) k of
              Inl e \<Rightarrow> Inl e
            | Inr (expr, nextIndex, k') \<Rightarrow>
                Inr (Arr k' [Str ''quote'', expr], nextIndex, k' + 1))
         else if \<not> isNaN (Number token) then Inr (Num (Number token), index + 1, k)
         else Inr (Str (toLowerCase token), index + 1, k))
      else Inl TypeError)"
| "parseList tokens i k list =
     (if i < length tokens \<and> tokens ! i \<noteq> '')'' then
        (case parseExpression tokens i k of
           Inl e \<Rightarrow> Inl e
         | Inr (expr, nextIndex, k') \<Rightarrow>
             parseList tokens (max nextIndex (i + 1)) k' (list @ [expr]))
      else if i \<ge> length tokens then Inl UnmatchedOpening
      else Inr (list, i, k))"
  by pat_completeness auto
termination
  by (relation "measure (\<lambda>x. case x of
          Inl (tokens, index, k) \<Rightarrow> 2 * (length tokens - index)
        | Inr (tokens, i, k, list) \<Rightarrow> 2 * (length tokens - i) + 1)")
     auto

declare parseExpression.simps [simp del] parseList.simps [simp del]

text \<open>A token that is none of the three markers.\<close>

definition is_atom :: "string \<Rightarrow> bool" where
  "is_atom token = (token \<noteq> ''('' \<and> token \<noteq> '')'' \<and> token \<noteq> [quote_char])"

text \<open>
  \<^verbatim>\<open>parse(input)\<close>: the loop over the top-level expressions, from index \<open>i\<close> with the
  expressions read so far.
\<close>

function parse_from :: "string list \<Rightarrow> nat \<Rightarrow> nat \<Rightarrow> val list \<Rightarrow> error + (val list \<times> nat)" where
  "parse_from tokens i k result =
     (if i < length tokens then
        (case parseExpression tokens i k of
           Inl e \<Rightarrow> Inl e
         | Inr (expr, nextIndex, k') \<Rightarrow>
             parse_from tokens (max nextIndex (i + 1)) k' (result @ [expr]))
      else Inr (result, k))"
  by pat_completeness auto
termination
  by (relation "measure (\<lambda>(tokens, i, k, result). length tokens - i)") auto

declare parse_from.simps [simp del]

definition parse :: "string \<Rightarrow> nat \<Rightarrow> error + (val list \<times> nat)" where
  "parse input k = parse_from (tokenize input) 0 k []"

section \<open>Host operators on values\<close>

text \<open>\<^verbatim>\<open>args[i]\<close>: \<^verbatim>\<open>undefined\<close> past the end of the array.\<close>

definition arg :: "val list \<Rightarrow> nat \<Rightarrow> val" where
  "arg args i = (if i < length args then args ! i else Undefined)"

text \<open>
  \<^verbatim>\<open>a === b\<close>: numbers by value (\<^verbatim>\<open>NaN\<close> equals nothing), strings and booleans by value,
  \<^verbatim>\<open>null\<close> and \<^verbatim>\<open>undefined\<close> each only to itself, arrays by identity.
\<close>

fun strict_equal :: "val \<Rightarrow> val \<Rightarrow> bool" where
  "strict_equal (Num x) (Num y) = (x = y \<and> x \<noteq> NaN)"
| "strict_equal (Str s) (Str t) = (s = t)"
| "strict_equal (Bool b) (Bool c) = (b = c)"
| "strict_equal Null Null = True"
| "strict_equal Undefined Undefined = True"
| "strict_equal (Arr i xs) (Arr j ys) = (i = j)"
| "strict_equal a b = False"

text \<open>The host's truthiness, which \<^verbatim>\<open>c ? x : y\<close> and \<^verbatim>\<open>!x\<close> use.\<close>

fun truthy :: "val \<Rightarrow> bool" where
  "truthy (Num x) = (x \<noteq> Fin 0 \<and> x \<noteq> NaN)"
| "truthy (Str s) = (s \<noteq> [])"
| "truthy (Bool b) = b"
| "truthy Null = False"
| "truthy Undefined = False"
| "truthy (Arr i xs) = True"

text \<open>
  The host's conversion to a string, used for property keys and by \<^verbatim>\<open>+\<close>; in the text of
  an array \<^verbatim>\<open>null\<close> and \<^verbatim>\<open>undefined\<close> elements are empty.
\<close>

fun to_string :: "val \<Rightarrow> string" where
  "to_string (Num x) = toString x"
| "to_string (Str s) = s"
| "to_string (Bool b) = (if b then ''true'' else ''false'')"
| "to_string Null = ''null''"
| "to_string Undefined = ''undefined''"
| "to_string (Arr i xs) =
     join '','' (map (\<lambda>x. if x = Null \<or> x = Undefined then [] else to_string x) xs)"

fun is_string :: "val \<Rightarrow> bool" where
  "is_string (Str s) = True"
| "is_string v = False"

fun is_array :: "val \<Rightarrow> bool" where
  "is_array (Arr i xs) = True"
| "is_array v = False"

definition to_primitive :: "val \<Rightarrow> val" where
  "to_primitive v = (case v of Arr i xs \<Rightarrow> Str (to_string v) | _ \<Rightarrow> v)"

definition to_number :: "val \<Rightarrow> jsnum" where
  "to_number v =
     (case to_primitive v of
        Num x \<Rightarrow> x
      | Str s \<Rightarrow> Number s
      | Bool b \<Rightarrow> Fin (if b then 1 else 0)
      | Null \<Rightarrow> Fin 0
      | _ \<Rightarrow> NaN)"

text \<open>Arithmetic of the host on numbers: exact on finite numbers, as said above.\<close>

definition num_sign :: "jsnum \<Rightarrow> int" where
  "num_sign x =
     (case x of
        Fin q \<Rightarrow> if q < 0 then - 1 else if q = 0 then 0 else 1
      | PosInf \<Rightarrow> 1
      | NegInf \<Rightarrow> - 1
      | NaN \<Rightarrow> 0)"

definition num_neg :: "jsnum \<Rightarrow> jsnum" where
  "num_neg x = (case x of Fin q \<Rightarrow> Fin (- q) | PosInf \<Rightarrow> NegInf | NegInf \<Rightarrow> PosInf | NaN \<Rightarrow> NaN)"

fun num_add :: "jsnum \<Rightarrow> jsnum \<Rightarrow> jsnum" where
  "num_add NaN y = NaN"
| "num_add x NaN = NaN"
| "num_add (Fin a) (Fin b) = Fin (a + b)"
| "num_add PosInf NegInf = NaN"
| "num_add NegInf PosInf = NaN"
| "num_add (Fin a) y = y"
| "num_add x y = x"

definition num_sub :: "jsnum \<Rightarrow> jsnum \<Rightarrow> jsnum" where
  "num_sub x y = num_add x (num_neg y)"

definition num_mul :: "jsnum \<Rightarrow> jsnum \<Rightarrow> jsnum" where
  "num_mul x y =
     (case (x, y) of
        (Fin a, Fin b) \<Rightarrow> Fin (a * b)
      | _ \<Rightarrow> if x = NaN \<or> y = NaN \<or> num_sign x * num_sign y = 0 then NaN
             else if 0 < num_sign x * num_sign y then PosInf else NegInf)"

definition num_div :: "jsnum \<Rightarrow> jsnum \<Rightarrow> jsnum" where
  "num_div x y =
     (if x = NaN \<or> y = NaN then NaN
      else case (x, y) of
        (Fin a, Fin b) \<Rightarrow>
          if b \<noteq> 0 then Fin (a / b)
          else if a = 0 then NaN else if 0 < a then PosInf else NegInf
      | (Fin a, _) \<Rightarrow> Fin 0
      | (_, Fin b) \<Rightarrow> if (x = PosInf) = (0 \<le> b) then PosInf else NegInf
      | _ \<Rightarrow> NaN)"

fun num_less :: "jsnum \<Rightarrow> jsnum \<Rightarrow> bool" where
  "num_less NaN y = False"
| "num_less x NaN = False"
| "num_less (Fin a) (Fin b) = (a < b)"
| "num_less x NegInf = False"
| "num_less NegInf y = True"
| "num_less PosInf y = False"
| "num_less x PosInf = True"

fun str_less :: "string \<Rightarrow> string \<Rightarrow> bool" where
  "str_less s [] = False"
| "str_less [] (d # t) = True"
| "str_less (c # s) (d # t) =
     ((of_char c :: nat) < of_char d \<or> (c = d \<and> str_less s t))"

text \<open>\<^verbatim>\<open>a + b\<close>, \<^verbatim>\<open>a - b\<close>, \<^verbatim>\<open>a * b\<close>, \<^verbatim>\<open>a / b\<close>, \<^verbatim>\<open>a < b\<close> and \<^verbatim>\<open>a <= b\<close> on any two values.\<close>

definition js_add :: "val \<Rightarrow> val \<Rightarrow> val" where
  "js_add a b =
     (let pa = to_primitive a; pb = to_primitive b
      in if is_string pa \<or> is_string pb then Str (to_string pa @ to_string pb)
         else Num (num_add (to_number pa) (to_number pb)))"

definition js_sub :: "val \<Rightarrow> val \<Rightarrow> val" where
  "js_sub a b = Num (num_sub (to_number a) (to_number b))"

definition js_mul :: "val \<Rightarrow> val \<Rightarrow> val" where
  "js_mul a b = Num (num_mul (to_number a) (to_number b))"

definition js_div :: "val \<Rightarrow> val \<Rightarrow> val" where
  "js_div a b = Num (num_div (to_number a) (to_number b))"

definition js_less :: "val \<Rightarrow> val \<Rightarrow> bool" where
  "js_less a b =
     (case (to_primitive a, to_primitive b) of
        (Str s, Str t) \<Rightarrow> str_less s t
      | _ \<Rightarrow> num_less (to_number a) (to_number b))"

definition js_less_eq :: "val \<Rightarrow> val \<Rightarrow> bool" where
  "js_less_eq a b =
     (case (to_primitive a, to_primitive b) of
        (Str s, Str t) \<Rightarrow> \<not> str_less t s
      | _ \<Rightarrow> to_number a \<noteq> NaN \<and> to_number b \<noteq> NaN \<and> \<not> num_less (to_number b) (to_number a))"

section \<open>Environments and the interpreter's state\<close>

text \<open>
  The primitives of \<^verbatim>\<open>createGlobalEnvironment\<close>, one constructor for each function of the
  table in the order of the source.
\<close>

datatype prim =
    PAdd | PSub | PMul | PDiv
  | PEq | PLt | PGt | PLe | PGe
  | PList | PCons | PCar | PCdr | PLength | PAppend
  | PAtom | PNull | PNumberp | PSymbolp
  | PAnd | POr | PNot
  | PPrint

text \<open>
  \<^verbatim>\<open>LispEnvValue\<close>: a value, a primitive, or a function made by \<^verbatim>\<open>defun\<close>. The JavaScript
  closure of \<^verbatim>\<open>defun\<close> holds a reference to the environment object \<^verbatim>\<open>env\<close> it was made in,
  and \<^verbatim>\<open>params\<close> and \<^verbatim>\<open>body\<close>; environments are objects that \<^verbatim>\<open>defun\<close> changes in place, so
  they live in a store and \<open>Closure\<close> holds the address of its environment. An
  environment is a list of bindings read from the front: the binding written last is
  the one found.

  An environment is an object literal or a copy of one, so \<^verbatim>\<open>env[key]\<close> also finds the
  properties of the host's \<^verbatim>\<open>Object.prototype\<close> under a key the environment does not bind
  itself: eleven functions of the host (\<open>HostFunction\<close>) and the accessor \<^verbatim>\<open>__proto__\<close>, whose
  value is the prototype object (\<open>HostPrototype\<close>). An assignment to a key makes a binding
  of the environment, except for the key \<^verbatim>\<open>__proto__\<close>: there the setter of the host
  replaces the prototype when the value is an object or \<^verbatim>\<open>null\<close>, and does nothing for
  any other value.
\<close>

datatype bound = Data val | Prim prim | Closure nat val "val list" | HostFunction | HostPrototype

type_synonym env = "(string \<times> bound) list"

definition env_set :: "string \<Rightarrow> bound \<Rightarrow> env \<Rightarrow> env" where
  "env_set key b e = (key, b) # e"

definition inherited_function :: "string \<Rightarrow> bool" where
  "inherited_function key =
     (key \<in> set [''constructor'', ''hasOwnProperty'', ''isPrototypeOf'',
                  ''propertyIsEnumerable'', ''toLocaleString'', ''toString'', ''valueOf'',
                  ''__defineGetter__'', ''__defineSetter__'', ''__lookupGetter__'',
                  ''__lookupSetter__''])"

text \<open>\<^verbatim>\<open>env[key]\<close>; \<open>None\<close> is \<^verbatim>\<open>undefined\<close> for a key that is found nowhere.\<close>

definition lookup :: "env \<Rightarrow> string \<Rightarrow> bound option" where
  "lookup e key =
     (case map_of e key of
        Some b \<Rightarrow> Some b
      | None \<Rightarrow>
          if inherited_function key then Some HostFunction
          else if key = ''__proto__'' then Some HostPrototype
          else None)"

text \<open>
  The state of a \<^verbatim>\<open>SimpleLisp\<close> object: the store of environments, with \<^verbatim>\<open>this.env\<close> at
  address 0; the lines of \<^verbatim>\<open>this.output\<close>; and the identity of the next new array.
\<close>

record interp =
  envs :: "env list"
  output_buffer :: "string list"
  next_id :: nat

type_synonym 'a result = "(error + 'a) \<times> interp"

definition env_at :: "interp \<Rightarrow> nat \<Rightarrow> env" where
  "env_at s a = (if a < length (envs s) then envs s ! a else [])"

definition set_binding :: "nat \<Rightarrow> string \<Rightarrow> bound \<Rightarrow> interp \<Rightarrow> interp" where
  "set_binding a key b s = s\<lparr>envs := (envs s)[a := env_set key b (env_at s a)]\<rparr>"

definition new_array :: "val list \<Rightarrow> interp \<Rightarrow> val result" where
  "new_array xs s = (Inr (Arr (next_id s) xs), s\<lparr>next_id := next_id s + 1\<rparr>)"

definition createGlobalEnvironment :: env where
  "createGlobalEnvironment =
     [(''+'', Prim PAdd), (''-'', Prim PSub), (''*'', Prim PMul), (''/'', Prim PDiv),
      (''='', Prim PEq), (''<'', Prim PLt), (''>'', Prim PGt), (''<='', Prim PLe),
      (''>='', Prim PGe),
      (''list'', Prim PList), (''cons'', Prim PCons), (''car'', Prim PCar),
      (''cdr'', Prim PCdr), (''length'', Prim PLength), (''append'', Prim PAppend),
      (''atom'', Prim PAtom), (''null'', Prim PNull), (''numberp'', Prim PNumberp),
      (''symbolp'', Prim PSymbolp),
      (''and'', Prim PAnd), (''or'', Prim POr), (''not'', Prim PNot),
      (''print'', Prim PPrint),
      (''t'', Data (Bool True)), (''nil'', Data Null)]"

text \<open>The interpreter after its constructor.\<close>

definition new_interp :: interp where
  "new_interp = \<lparr>envs = [createGlobalEnvironment], output_buffer = [], next_id = 0\<rparr>"

text \<open>The elements a spread \<^verbatim>\<open>...list\<close> takes from a value, if the value is iterable.\<close>

definition spread :: "val \<Rightarrow> val list option" where
  "spread v =
     (case v of
        Arr i xs \<Rightarrow> Some xs
      | Str s \<Rightarrow> Some (map (\<lambda>c. Str [c]) s)
      | _ \<Rightarrow> None)"

fun spread_all :: "val list \<Rightarrow> val list option" where
  "spread_all [] = Some []"
| "spread_all (v # vs) =
     (case spread v of
        None \<Rightarrow> None
      | Some xs \<Rightarrow> (case spread_all vs of None \<Rightarrow> None | Some ys \<Rightarrow> Some (xs @ ys)))"

text \<open>
  A call of a primitive on the evaluated arguments. \<^verbatim>\<open>reduce\<close> without a start value
  throws the host's \<^verbatim>\<open>TypeError\<close> on no arguments, as do \<^verbatim>\<open>car\<close> and \<^verbatim>\<open>cdr\<close> on \<^verbatim>\<open>null\<close> and
  \<^verbatim>\<open>undefined\<close>, \<^verbatim>\<open>cdr\<close> on a value with no \<^verbatim>\<open>slice\<close>, and \<^verbatim>\<open>append\<close> on a value that is not
  iterable.
\<close>

definition apply_prim :: "prim \<Rightarrow> val list \<Rightarrow> interp \<Rightarrow> val result" where
  "apply_prim p args s =
     (case p of
        PAdd \<Rightarrow> (Inr (foldl js_add (Num (Fin 0)) args), s)
      | PSub \<Rightarrow>
          (if length args = 1 then (Inr (Num (num_neg (to_number (args ! 0)))), s)
           else case args of [] \<Rightarrow> (Inl TypeError, s) | a # r \<Rightarrow> (Inr (foldl js_sub a r), s))
      | PMul \<Rightarrow> (Inr (foldl js_mul (Num (Fin 1)) args), s)
      | PDiv \<Rightarrow> (case args of [] \<Rightarrow> (Inl TypeError, s) | a # r \<Rightarrow> (Inr (foldl js_div a r), s))
      | PEq \<Rightarrow> (Inr (Bool (strict_equal (arg args 0) (arg args 1))), s)
      | PLt \<Rightarrow> (Inr (Bool (js_less (arg args 0) (arg args 1))), s)
      | PGt \<Rightarrow> (Inr (Bool (js_less (arg args 1) (arg args 0))), s)
      | PLe \<Rightarrow> (Inr (Bool (js_less_eq (arg args 0) (arg args 1))), s)
      | PGe \<Rightarrow> (Inr (Bool (js_less_eq (arg args 1) (arg args 0))), s)
      | PList \<Rightarrow> new_array args s
      | PCons \<Rightarrow>
          new_array (arg args 0 # (case arg args 1 of Arr i xs \<Rightarrow> xs | b \<Rightarrow> [b])) s
      | PCar \<Rightarrow>
          (case arg args 0 of
             Arr i xs \<Rightarrow> (Inr (arg xs 0), s)
           | Str t \<Rightarrow> (Inr (case t of [] \<Rightarrow> Undefined | c # r \<Rightarrow> Str [c]), s)
           | Null \<Rightarrow> (Inl TypeError, s)
           | Undefined \<Rightarrow> (Inl TypeError, s)
           | _ \<Rightarrow> (Inr Undefined, s))
      | PCdr \<Rightarrow>
          (case arg args 0 of
             Arr i xs \<Rightarrow> new_array (drop 1 xs) s
           | Str t \<Rightarrow> (Inr (Str (drop 1 t)), s)
           | _ \<Rightarrow> (Inl TypeError, s))
      | PLength \<Rightarrow>
          (Inr (Num (Fin (case arg args 0 of Arr i xs \<Rightarrow> of_nat (length xs) | _ \<Rightarrow> 0))), s)
      | PAppend \<Rightarrow>
          (case spread_all args of None \<Rightarrow> (Inl TypeError, s) | Some xs \<Rightarrow> new_array xs s)
      | PAtom \<Rightarrow> (Inr (Bool (\<not> is_array (arg args 0))), s)
      | PNull \<Rightarrow>
          (Inr (Bool (case arg args 0 of Null \<Rightarrow> True | Arr i xs \<Rightarrow> length xs = 0
                      | _ \<Rightarrow> False)), s)
      | PNumberp \<Rightarrow> (Inr (Bool (case arg args 0 of Num x \<Rightarrow> True | _ \<Rightarrow> False)), s)
      | PSymbolp \<Rightarrow> (Inr (Bool (is_string (arg args 0))), s)
      | PAnd \<Rightarrow> (Inr (Bool (list_all (\<lambda>x. x \<noteq> Bool False \<and> x \<noteq> Null) args)), s)
      | POr \<Rightarrow> (Inr (Bool (list_ex (\<lambda>x. x \<noteq> Bool False \<and> x \<noteq> Null) args)), s)
      | PNot \<Rightarrow> (Inr (Bool (\<not> truthy (arg args 0))), s)
      | PPrint \<Rightarrow> (Inr Null, s\<lparr>output_buffer := output_buffer s @ [join '' '' (map stringify args)]\<rparr>))"

section \<open>Evaluator\<close>

text \<open>
  \<^verbatim>\<open>xs.map(x => this.evaluateExpression(x, env))\<close> and the \<^verbatim>\<open>for\<close> loops that keep the last
  result, over an evaluation function \<open>ev\<close>; both stop at the first error.
\<close>

fun eval_args :: "(val \<Rightarrow> interp \<Rightarrow> val result) \<Rightarrow> val list \<Rightarrow> interp \<Rightarrow> (val list) result" where
  "eval_args ev [] s = (Inr [], s)"
| "eval_args ev (x # xs) s =
     (case ev x s of
        (Inl e, s1) \<Rightarrow> (Inl e, s1)
      | (Inr v, s1) \<Rightarrow>
          (case eval_args ev xs s1 of
             (Inl e, s2) \<Rightarrow> (Inl e, s2)
           | (Inr vs, s2) \<Rightarrow> (Inr (v # vs), s2)))"

fun eval_forms :: "(val \<Rightarrow> interp \<Rightarrow> val result) \<Rightarrow> val \<Rightarrow> val list \<Rightarrow> interp \<Rightarrow> val result" where
  "eval_forms ev res [] s = (Inr res, s)"
| "eval_forms ev res (x # xs) s =
     (case ev x s of
        (Inl e, s1) \<Rightarrow> (Inl e, s1)
      | (Inr v, s1) \<Rightarrow> eval_forms ev v xs s1)"

text \<open>
  \<^verbatim>\<open>params.forEach((param, i) => { localEnv[param] = args[i]; })\<close>, from index \<open>i\<close> on: a
  property key is the host's text of the parameter. The result is \<open>None\<close> when a parameter
  \<^verbatim>\<open>__proto__\<close> gets an array or \<^verbatim>\<open>null\<close>, which replaces the prototype of \<^verbatim>\<open>localEnv\<close>; with
  any other argument the parameter \<^verbatim>\<open>__proto__\<close> is not bound.
\<close>

fun bind_params :: "val list \<Rightarrow> nat \<Rightarrow> val list \<Rightarrow> env \<Rightarrow> env option" where
  "bind_params [] i args localEnv = Some localEnv"
| "bind_params (param # ps) i args localEnv =
     (if to_string param = ''__proto__'' then
        (if is_array (arg args i) \<or> arg args i = Null then None
         else bind_params ps (i + 1) args localEnv)
      else bind_params ps (i + 1) args
             (env_set (to_string param) (Data (arg args i)) localEnv))"

text \<open>
  The function that \<^verbatim>\<open>defun\<close> stores, called on \<open>args\<close>: \<open>a\<close> is the address of the
  environment \<^verbatim>\<open>env\<close> of the \<^verbatim>\<open>defun\<close>, and \<open>ev\<close> evaluates an expression in the
  environment at an address. \<^verbatim>\<open>{ ...env }\<close> copies the bindings \<^verbatim>\<open>env\<close> has when the function
  is called into a new environment; \<^verbatim>\<open>params.forEach\<close> throws the host's \<^verbatim>\<open>TypeError\<close> when
  \<^verbatim>\<open>params\<close> is no array.
\<close>

definition call_function ::
  "(val \<Rightarrow> nat \<Rightarrow> interp \<Rightarrow> val result) \<Rightarrow> nat \<Rightarrow> val \<Rightarrow> val list \<Rightarrow> val list \<Rightarrow> interp \<Rightarrow> val result"
where
  "call_function ev a params body args s =
     (let l = length (envs s);
          s1 = s\<lparr>envs := envs s @ [env_at s a]\<rparr>
      in case params of
           Arr i ps \<Rightarrow>
             (case bind_params ps 0 args (env_at s1 l) of
                None \<Rightarrow> (Inl Unmodelled, s1)
              | Some localEnv \<Rightarrow>
                  eval_forms (\<lambda>form. ev form l) Null body
                    (s1\<lparr>envs := (envs s1)[l := localEnv]\<rparr>))
         | _ \<Rightarrow> (Inl TypeError, s1))"

text \<open>
  The function application at the end of \<^verbatim>\<open>evaluateExpression\<close>, for the list
  \<open>first # rest\<close> in the environment at \<open>a\<close>, over the evaluator \<open>ev\<close> of the
  subexpressions. A head that is a string is looked up and not evaluated; any other head
  is evaluated, and its value is no function. The function is found before the arguments
  are evaluated, from left to right. The call of a function of the host, after the
  arguments, is outside the model.
\<close>

definition function_of ::
  "(val \<Rightarrow> nat \<Rightarrow> interp \<Rightarrow> val result) \<Rightarrow> val \<Rightarrow> nat \<Rightarrow> interp \<Rightarrow> (bound option) result"
where
  "function_of ev first a s =
     (case first of
        Str f \<Rightarrow> (Inr (lookup (env_at s a) f), s)
      | _ \<Rightarrow>
          (case ev first a s of
             (Inl e, s1) \<Rightarrow> (Inl e, s1)
           | (Inr v, s1) \<Rightarrow> (Inr (Some (Data v)), s1)))"

definition application ::
  "(val \<Rightarrow> nat \<Rightarrow> interp \<Rightarrow> val result) \<Rightarrow> val \<Rightarrow> val list \<Rightarrow> nat \<Rightarrow> interp \<Rightarrow> val result"
where
  "application ev first rest a s =
     (case function_of ev first a s of
        (Inl e, s1) \<Rightarrow> (Inl e, s1)
      | (Inr fn, s1) \<Rightarrow>
          (case fn of
             Some (Prim p) \<Rightarrow>
               (case eval_args (\<lambda>x. ev x a) rest s1 of
                  (Inl e, s2) \<Rightarrow> (Inl e, s2)
                | (Inr args, s2) \<Rightarrow> apply_prim p args s2)
           | Some (Closure c params body) \<Rightarrow>
               (case eval_args (\<lambda>x. ev x a) rest s1 of
                  (Inl e, s2) \<Rightarrow> (Inl e, s2)
                | (Inr args, s2) \<Rightarrow> call_function ev c params body args s2)
           | Some HostFunction \<Rightarrow>
               (case eval_args (\<lambda>x. ev x a) rest s1 of
                  (Inl e, s2) \<Rightarrow> (Inl e, s2)
                | (Inr args, s2) \<Rightarrow> (Inl Unmodelled, s2))
           | _ \<Rightarrow> (Inl (NotAFunction (stringify first)), s1)))"

text \<open>
  \<^verbatim>\<open>evaluateExpression(expr, env)\<close>, with \<open>a\<close> the address of \<^verbatim>\<open>env\<close>. The first argument
  bounds the depth of the recursion: the code's recursion may not end, and the model
  returns \<open>FuelExhausted\<close> when the bound is reached. \<^verbatim>\<open>env[name] = ...\<close> of \<^verbatim>\<open>defun\<close> on the
  name \<^verbatim>\<open>__proto__\<close> makes the new function the prototype of the environment.
\<close>

primrec evaluateExpression :: "nat \<Rightarrow> val \<Rightarrow> nat \<Rightarrow> interp \<Rightarrow> val result" where
  "evaluateExpression 0 expr a s = (Inl FuelExhausted, s)"
| "evaluateExpression (Suc n) expr a s =
     (case expr of
        Num x \<Rightarrow> (Inr expr, s)
      | Null \<Rightarrow> (Inr expr, s)
      | Bool b \<Rightarrow> (Inr expr, s)
      | Str name \<Rightarrow>
          (case lookup (env_at s a) name of
             None \<Rightarrow> (Inl (UndefinedSymbol name), s)
           | Some (Data v) \<Rightarrow>
               if v = Undefined then (Inl (UndefinedSymbol name), s) else (Inr v, s)
           | Some HostPrototype \<Rightarrow> (Inl Unmodelled, s)
           | Some f \<Rightarrow> (Inl (FunctionAsValue name), s))
      | Arr i xs \<Rightarrow>
          (case xs of
             [] \<Rightarrow> (Inr Null, s)
           | first # rest \<Rightarrow>
               if first = Str ''quote'' then (Inr (arg xs 1), s)
               else if first = Str ''if'' then
                 (case evaluateExpression n (arg xs 1) a s of
                    (Inl e, s1) \<Rightarrow> (Inl e, s1)
                  | (Inr condition, s1) \<Rightarrow>
                      if truthy condition then evaluateExpression n (arg xs 2) a s1
                      else evaluateExpression n (arg xs 3) a s1)
               else if first = Str ''defun'' then
                 (let name = arg xs 1; params = arg xs 2; body = drop 3 xs
                  in if to_string name = ''__proto__'' then (Inl Unmodelled, s)
                     else (Inr name,
                           set_binding a (to_string name) (Closure a params body) s))
               else application (evaluateExpression n) first rest a s)
      | Undefined \<Rightarrow> (Inl (CannotEvaluate (stringify expr)), s))"

text \<open>
  \<^verbatim>\<open>evaluate(code)\<close>, with the bound on the recursion of each top-level expression; the
  result is the pair of \<^verbatim>\<open>result\<close> and \<^verbatim>\<open>output\<close>, or the error thrown.
\<close>

definition evaluate :: "nat \<Rightarrow> string \<Rightarrow> interp \<Rightarrow> (string \<times> string) result" where
  "evaluate fuel code s =
     (let s0 = s\<lparr>output_buffer := []\<rparr> in
      case parse code (next_id s0) of
        Inl e \<Rightarrow> (Inl e, s0)
      | Inr (expressions, k) \<Rightarrow>
          (case eval_forms (\<lambda>expr. evaluateExpression fuel expr 0) Null expressions
                  (s0\<lparr>next_id := k\<rparr>) of
             (Inl e, s1) \<Rightarrow> (Inl e, s1)
           | (Inr lastResult, s1) \<Rightarrow>
               (let result = stringify lastResult;
                    out = (if length (output_buffer s1) > 0
                           then join [CHR 0x0A] (output_buffer s1) @ [CHR 0x0A] @ result
                           else result)
                in (Inr (result, out), s1))))"

section \<open>Notions of the statements\<close>

text \<open>
  Structural equality in the words of the specification: equal numbers, symbols and
  booleans, both nil, or lists of pairwise structurally equal elements, whichever
  objects the lists are.
\<close>

fun strip_ids :: "val \<Rightarrow> val" where
  "strip_ids (Arr i xs) = Arr 0 (map strip_ids xs)"
| "strip_ids v = v"

definition same_structure :: "val \<Rightarrow> val \<Rightarrow> bool" where
  "same_structure a b = (strip_ids a = strip_ids b)"

text \<open>
  The texts for which \<^verbatim>\<open>Number\<close> is not \<^verbatim>\<open>NaN\<close>, by kind. A decimal numeric literal, in the
  words of the specification, is an optional sign before decimal digits with an optional
  fraction and an optional exponent.
\<close>

definition strip_sign :: "string \<Rightarrow> string" where
  "strip_sign t = (case t of c # r \<Rightarrow> if c = CHR ''-'' \<or> c = CHR ''+'' then r else t | [] \<Rightarrow> t)"

definition is_decimal_literal :: "string \<Rightarrow> bool" where
  "is_decimal_literal t = (unsigned_decimal (strip_sign t) \<noteq> None)"

definition is_infinity_literal :: "string \<Rightarrow> bool" where
  "is_infinity_literal t = (strip_sign t = ''Infinity'')"

definition is_radix_literal :: "string \<Rightarrow> bool" where
  "is_radix_literal t = (non_decimal t \<noteq> None)"

definition frame :: "nat \<Rightarrow> interp \<Rightarrow> interp \<Rightarrow> bool" where
  "frame a s s' =
     (length (envs s) \<le> length (envs s')
      \<and> (\<forall>b. b < length (envs s) \<and> b \<noteq> a \<longrightarrow> envs s' ! b = envs s ! b))"

definition preserved :: "interp \<Rightarrow> interp \<Rightarrow> bool" where
  "preserved s s' =
     (length (envs s) \<le> length (envs s')
      \<and> (\<forall>b. b < length (envs s) \<longrightarrow> envs s' ! b = envs s ! b))"



text \<open>
  \<open>depth_after d ts\<close>: the number of lists open after the tokens \<open>ts\<close>, from \<open>d\<close> open lists;
  \<open>None\<close> when a \<^verbatim>\<open>)\<close> comes with no list open. \<open>quotes_applied ts\<close>: every quote marker is
  followed by a token other than \<^verbatim>\<open>)\<close>.
\<close>

fun depth_after :: "nat \<Rightarrow> string list \<Rightarrow> nat option" where
  "depth_after d [] = Some d"
| "depth_after d (t # ts) =
     (if t = ''('' then depth_after (Suc d) ts
      else if t = '')'' then (case d of 0 \<Rightarrow> None | Suc d' \<Rightarrow> depth_after d' ts)
      else depth_after d ts)"

fun quotes_applied :: "string list \<Rightarrow> bool" where
  "quotes_applied [] = True"
| "quotes_applied [t] = (t \<noteq> [quote_char])"
| "quotes_applied (t # u # ts) = ((t = [quote_char] \<longrightarrow> u \<noteq> '')'') \<and> quotes_applied (u # ts))"

text \<open>\<open>opens ts i\<close>: the tokens from \<open>i\<close> on leave more lists open than they find.\<close>

definition opens :: "string list \<Rightarrow> nat \<Rightarrow> bool" where
  "opens ts i = (\<forall>d. \<exists>d'. depth_after d (drop i ts) = Some d' \<and> d < d')"








section \<open>The equations of the parser\<close>

lemma parseExpression_end:
  "\<not> index < length tokens \<Longrightarrow> parseExpression tokens index k = Inl TypeError"
  by (subst parseExpression.simps) simp

lemma parseExpression_open:
  "index < length tokens \<Longrightarrow> tokens ! index = ''('' \<Longrightarrow>
   parseExpression tokens index k =
     (case parseList tokens (index + 1) (k + 1) [] of
        Inl e \<Rightarrow> Inl e
      | Inr (list, i, k') \<Rightarrow> Inr (Arr k list, i + 1, k'))"
  by (subst parseExpression.simps) simp

lemma parseExpression_close:
  "index < length tokens \<Longrightarrow> tokens ! index = '')'' \<Longrightarrow>
   parseExpression tokens index k = Inl UnexpectedClosing"
  by (subst parseExpression.simps) simp

lemma parseExpression_quote:
  "index < length tokens \<Longrightarrow> tokens ! index = [quote_char] \<Longrightarrow>
   parseExpression tokens index k =
     (case parseExpression tokens (index + 1) k of
        Inl e \<Rightarrow> Inl e
      | Inr (expr, nextIndex, k') \<Rightarrow> Inr (Arr k' [Str ''quote'', expr], nextIndex, k' + 1))"
  by (subst parseExpression.simps) (simp add: quote_char_def)

lemma parseExpression_atom:
  "index < length tokens \<Longrightarrow> is_atom (tokens ! index) \<Longrightarrow>
   parseExpression tokens index k =
     (if \<not> isNaN (Number (tokens ! index)) then Inr (Num (Number (tokens ! index)), index + 1, k)
      else Inr (Str (toLowerCase (tokens ! index)), index + 1, k))"
  by (subst parseExpression.simps) (simp add: is_atom_def)

lemma token_cases:
  obtains "token = ''(''" | "token = '')''" | "token = [quote_char]" | "is_atom token"
  by (auto simp: is_atom_def)

lemma parse_advances:
  shows "parseExpression tokens index k = Inr (expr, nextIndex, k') \<Longrightarrow> index < nextIndex"
    and "parseList tokens i k0 list = Inr (list', j, k0') \<Longrightarrow> i \<le> j"
proof (induction tokens index k and tokens i k0 list
       arbitrary: expr nextIndex k' and list' j k0'
       rule: parseExpression_parseList.induct)
  case (1 tokens index k)
  note r = "1.prems"
  have lt: "index < length tokens"
    using r parseExpression_end [of index tokens k] by auto
  show ?case
  proof (cases "tokens ! index" rule: token_cases)
    case 1
    with r lt obtain l i k1 where
      "parseList tokens (index + 1) (k + 1) [] = Inr (l, i, k1)" "nextIndex = i + 1"
      by (auto simp: parseExpression_open split: sum.splits)
    with "1.IH"(1) [OF lt refl 1] show ?thesis by fastforce
  next
    case 2
    with r lt show ?thesis by (simp add: parseExpression_close)
  next
    case 3
    with r lt obtain e k1 where
      "parseExpression tokens (index + 1) k = Inr (e, nextIndex, k1)"
      by (auto simp: parseExpression_quote split: sum.splits)
    moreover have "tokens ! index \<noteq> ''(''" "tokens ! index \<noteq> '')''"
      using 3 by (simp_all add: quote_char_def)
    ultimately show ?thesis
      using "1.IH"(2) [OF lt refl _ _ 3] by fastforce
  next
    case 4
    with r lt show ?thesis
      by (auto simp: parseExpression_atom split: if_splits)
  qed
next
  case (2 tokens i k list)
  note r = "2.prems"
  show ?case
  proof (cases "i < length tokens \<and> tokens ! i \<noteq> '')''")
    case True
    with r obtain e n k1 where
      p: "parseExpression tokens i k = Inr (e, n, k1)" and
      l: "parseList tokens (max n (i + 1)) k1 (list @ [e]) = Inr (list', j, k0')"
      by (subst (asm) parseList.simps) (auto split: sum.splits)
    from "2.IH"(2) [OF True p refl refl l] show ?thesis by simp
  next
    case False
    with r show ?thesis
      by (subst (asm) parseList.simps) (auto split: if_splits)
  qed
qed

lemma parseExpression_advances:
  "parseExpression tokens index k = Inr (expr, nextIndex, k') \<Longrightarrow> index < nextIndex"
  by (rule parse_advances(1))

text \<open>The loop of a list, as the code has it.\<close>

lemma parseList_unfold:
  "parseList tokens i k list =
     (if i < length tokens \<and> tokens ! i \<noteq> '')'' then
        (case parseExpression tokens i k of
           Inl e \<Rightarrow> Inl e
         | Inr (expr, nextIndex, k') \<Rightarrow> parseList tokens nextIndex k' (list @ [expr]))
      else if i \<ge> length tokens then Inl UnmatchedOpening
      else Inr (list, i, k))"
proof -
  have "max j (i + 1) = j" if "parseExpression tokens i k = Inr (e, j, k')" for e j k'
    using parseExpression_advances [OF that] by simp
  then show ?thesis
    by (subst parseList.simps) (auto split: sum.splits)
qed

text \<open>The loop of \<open>parse\<close>, as the code has it, and its induction rule.\<close>

lemma parse_from_unfold:
  "parse_from tokens i k result =
     (if i < length tokens then
        (case parseExpression tokens i k of
           Inl e \<Rightarrow> Inl e
         | Inr (expr, nextIndex, k') \<Rightarrow> parse_from tokens nextIndex k' (result @ [expr]))
      else Inr (result, k))"
proof -
  have "max j (i + 1) = j" if "parseExpression tokens i k = Inr (e, j, k')" for e j k'
    using parseExpression_advances [OF that] by simp
  then show ?thesis
    by (subst parse_from.simps) (auto split: sum.splits)
qed

lemma parse_from_induct:
  assumes "\<And>tokens i k result.
      (\<And>expr nextIndex k'. i < length tokens \<Longrightarrow>
          parseExpression tokens i k = Inr (expr, nextIndex, k') \<Longrightarrow>
          P tokens nextIndex k' (result @ [expr])) \<Longrightarrow>
      P tokens i k result"
  shows "P tokens i k result"
proof (induction tokens i k result rule: parse_from.induct)
  case (1 tokens i k result)
  show ?case
  proof (rule assms)
    fix expr nextIndex k'
    assume lt: "i < length tokens"
      and v: "parseExpression tokens i k = Inr (expr, nextIndex, k')"
    have "max nextIndex (i + 1) = nextIndex"
      using parseExpression_advances [OF v] by simp
    with "1.IH" [OF lt v refl refl] show "P tokens nextIndex k' (result @ [expr])"
      by simp
  qed
qed

section \<open>The recursion bound\<close>









section \<open>Source text without expressions\<close>

lemma replace_all_absent: "c \<notin> set s \<Longrightarrow> replace_all c r s = s"
proof (induction s)
  case Nil
  show ?case by (simp add: replace_all_def)
next
  case (Cons a s)
  then have "a \<noteq> c" and "replace_all c r s = s" by auto
  then show ?case by (simp add: replace_all_def)
qed

lemma delims_not_space:
  "\<not> is_space (CHR ''('')" "\<not> is_space (CHR '')'')" "\<not> is_space quote_char"
  by (simp_all add: is_space_def quote_char_def)

lemma tokenize_spaces:
  assumes a: "\<forall>c\<in>set code. is_space c"
  shows "tokenize code = []"
proof -
  have "CHR ''('' \<notin> set code" "CHR '')'' \<notin> set code" "quote_char \<notin> set code"
    using a delims_not_space by blast+
  then have "tokenize code = filter (\<lambda>token. length token > 0) (split_ws [] (trim code))"
    by (simp add: tokenize_def replace_all_absent)
  moreover have d: "dropWhile is_space code = []" using a by simp
  have "trim code = []" unfolding trim_def d by simp
  ultimately show ?thesis by simp
qed

text \<open>
  C10. For every source text containing zero expressions (empty or white space only),
  \<open>evaluate\<close> succeeds with result \<^verbatim>\<open>NIL\<close> and output \<^verbatim>\<open>NIL\<close>, under any recursion bound and in
  any state of the interpreter; only the output buffer is reset.
\<close>

theorem evaluate_no_expressions:
  assumes "\<forall>c\<in>set code. is_space c"
  shows "evaluate fuel code s = (Inr (''NIL'', ''NIL''), s\<lparr>output_buffer := []\<rparr>)"
  using tokenize_spaces [OF assms]
  by (simp add: evaluate_def parse_def parse_from_unfold Let_def)

theorem evaluate_no_expressions_witness:
  "evaluate 0 [CHR '' '', CHR 0x0A, CHR 0x09] new_interp
     = (Inr (''NIL'', ''NIL''), new_interp\<lparr>output_buffer := []\<rparr>)
   \<and> evaluate 0 [] new_interp = (Inr (''NIL'', ''NIL''), new_interp\<lparr>output_buffer := []\<rparr>)"
  using evaluate_no_expressions [of "[CHR '' '', CHR 0x0A, CHR 0x09]" 0 new_interp]
        evaluate_no_expressions [of "[]" 0 new_interp]
  by (simp add: is_space_def)

section \<open>The conditional\<close>

text \<open>
  C2, at the input \<^verbatim>\<open>(if 0 'yes 'no)\<close>. The condition is tested with the host's
  \<^verbatim>\<open>condition ? ... : ...\<close>, for which the number 0 is false: the code evaluates the third
  operand and returns \<^verbatim>\<open>no\<close>, where the claim has \<^verbatim>\<open>yes\<close>. The primitive \<^verbatim>\<open>and\<close> of the same
  table tests with \<^verbatim>\<open>x !== false && x !== null\<close>, for which 0 is true.
\<close>

theorem if_zero_takes_else_branch:
  "fst (evaluate 3 ''(if 0 'yes 'no)'' new_interp) = Inr (''no'', ''no'')
   \<and> fst (evaluate 3 ''(and 0)'' new_interp) = Inr (''T'', ''T'')"
  by code_simp

section \<open>Missing arguments\<close>

lemma env_at_new:
  "env_at (s\<lparr>envs := envs s @ [e]\<rparr>) (length (envs s)) = e"
  by (simp add: env_at_def)

lemma call_function_array:
  "call_function ev a (Arr i ps) body args s =
     (case bind_params ps 0 args (env_at s a) of
        None \<Rightarrow> (Inl Unmodelled, s\<lparr>envs := envs s @ [env_at s a]\<rparr>)
      | Some localEnv \<Rightarrow>
          eval_forms (\<lambda>form. ev form (length (envs s))) Null body
            (s\<lparr>envs := envs s @ [localEnv]\<rparr>))"
  by (simp add: call_function_def Let_def env_at_new split: option.splits)

lemma bind_params_total:
  "\<forall>q\<in>set ps. to_string q \<noteq> ''__proto__'' \<Longrightarrow> \<exists>e'. bind_params ps i args e = Some e'"
  by (induction ps arbitrary: i e) simp_all

lemma bind_params_keeps_undefined:
  "length args \<le> i \<Longrightarrow> map_of e p = Some (Data Undefined) \<Longrightarrow>
   bind_params ps i args e = Some e' \<Longrightarrow> map_of e' p = Some (Data Undefined)"
proof (induction ps arbitrary: i e)
  case Nil
  then show ?case by simp
next
  case (Cons q ps)
  have u: "arg args i = Undefined" using Cons.prems(1) by (simp add: arg_def)
  show ?case
  proof (cases "to_string q = ''__proto__''")
    case True
    with Cons.prems u have "bind_params ps (i + 1) args e = Some e'" by simp
    with Cons.IH [of "i + 1" e] Cons.prems show ?thesis by simp
  next
    case False
    let ?e = "env_set (to_string q) (Data (arg args i)) e"
    from False Cons.prems have b: "bind_params ps (i + 1) args ?e = Some e'" by simp
    have "map_of ?e p = Some (Data Undefined)"
      using Cons.prems(2) u by (simp add: env_set_def)
    with Cons.IH [of "i + 1" ?e] Cons.prems(1) b show ?thesis by simp
  qed
qed

lemma bind_params_undefined:
  "k < length ps \<Longrightarrow> to_string (ps ! k) = p \<Longrightarrow> p \<noteq> ''__proto__'' \<Longrightarrow>
   length args \<le> i + k \<Longrightarrow> bind_params ps i args e = Some e' \<Longrightarrow>
   map_of e' p = Some (Data Undefined)"
proof (induction ps arbitrary: i k e)
  case Nil
  then show ?case by simp
next
  case (Cons q ps)
  show ?case
  proof (cases k)
    case 0
    with Cons.prems have q: "to_string q = p" and u: "arg args i = Undefined"
      by (simp_all add: arg_def)
    let ?e = "env_set p (Data Undefined) e"
    from Cons.prems q u have b: "bind_params ps (i + 1) args ?e = Some e'" by simp
    have "map_of ?e p = Some (Data Undefined)" by (simp add: env_set_def)
    from bind_params_keeps_undefined [OF _ this b] Cons.prems(4) 0 show ?thesis by simp
  next
    case (Suc j)
    have "\<exists>e0. bind_params ps (i + 1) args e0 = Some e'"
      using Cons.prems(5) by (auto split: if_splits)
    then obtain e0 where "bind_params ps (i + 1) args e0 = Some e'" ..
    with Suc Cons.prems Cons.IH [of j "i + 1" e0] show ?thesis by simp
  qed
qed

lemma lookup_marker:
  "map_of e p = Some (Data Undefined) \<Longrightarrow> lookup e p = Some (Data Undefined)"
  by (simp add: lookup_def)

lemma lookup_absent:
  "map_of e p = None \<Longrightarrow> \<not> inherited_function p \<Longrightarrow> p \<noteq> ''__proto__'' \<Longrightarrow>
   lookup e p = None"
  by (simp add: lookup_def)

lemma value_of_unbound:
  "lookup (env_at s l) p = None \<or> lookup (env_at s l) p = Some (Data Undefined) \<Longrightarrow>
   evaluateExpression (Suc n) (Str p) l s = (Inl (UndefinedSymbol p), s)"
  by auto

lemma head_of_unbound:
  assumes "lookup (env_at s l) p = None \<or> lookup (env_at s l) p = Some (Data Undefined)"
    and "p \<noteq> ''quote''" and "p \<noteq> ''if''" and "p \<noteq> ''defun''"
  shows "evaluateExpression (Suc n) (Arr j (Str p # rest)) l s = (Inl (NotAFunction p), s)"
  using assms by (auto simp: application_def function_of_def)

text \<open>
  C9, as the code has it. A function made by \<^verbatim>\<open>defun\<close>, with no parameter named \<^verbatim>\<open>__proto__\<close>,
  is called with fewer arguments than parameters, and \<open>p\<close> is the parameter at a position
  \<open>k\<close> with no argument. Then \<open>p\<close> is bound to \<^verbatim>\<open>undefined\<close> in the environment of the call. A
  body whose first form is \<open>p\<close> raises \<open>UndefinedSymbol\<close> of \<open>p\<close>, and a body whose first form
  is a list with the head \<open>p\<close> raises \<open>NotAFunction\<close> of \<open>p\<close>. Wherever a symbol bound to
  \<^verbatim>\<open>undefined\<close> is evaluated, or is the head of a list, the error is the one raised for a
  symbol that has no binding and is no property of the host's \<^verbatim>\<open>Object.prototype\<close>.
\<close>

theorem unfilled_parameter_is_unbound:
  assumes "k < length ps" and "to_string (ps ! k) = p" and "length args \<le> k"
    and "\<forall>q\<in>set ps. to_string q \<noteq> ''__proto__''"
  shows "(\<exists>e'. bind_params ps 0 args e = Some e' \<and> map_of e' p = Some (Data Undefined))
    \<and> fst (call_function (evaluateExpression (Suc n)) a (Arr i ps) (Str p # body) args s)
        = Inl (UndefinedSymbol p)
    \<and> (p \<noteq> ''quote'' \<and> p \<noteq> ''if'' \<and> p \<noteq> ''defun'' \<longrightarrow>
         fst (call_function (evaluateExpression (Suc n)) a (Arr i ps)
                (Arr j (Str p # rest) # body) args s) = Inl (NotAFunction p))
    \<and> (\<forall>t l t' l'. map_of (env_at t l) p = Some (Data Undefined) \<longrightarrow>
          map_of (env_at t' l') p = None \<longrightarrow> \<not> inherited_function p \<longrightarrow>
          fst (evaluateExpression (Suc n) (Str p) l t) = Inl (UndefinedSymbol p)
          \<and> fst (evaluateExpression (Suc n) (Str p) l' t') = Inl (UndefinedSymbol p)
          \<and> (p \<noteq> ''quote'' \<and> p \<noteq> ''if'' \<and> p \<noteq> ''defun'' \<longrightarrow>
               fst (evaluateExpression (Suc n) (Arr j (Str p # rest)) l t)
                 = Inl (NotAFunction p)
               \<and> fst (evaluateExpression (Suc n) (Arr j (Str p # rest)) l' t')
                   = Inl (NotAFunction p)))"
proof -
  have pp: "p \<noteq> ''__proto__''"
    using assms(1,2,4) nth_mem [of k ps] by auto
  have b: "\<exists>e'. bind_params ps 0 args e = Some e' \<and> map_of e' p = Some (Data Undefined)" for e
  proof -
    obtain e' where e': "bind_params ps 0 args e = Some e'"
      using bind_params_total [OF assms(4)] by blast
    from bind_params_undefined [OF assms(1,2) pp _ e'] assms(3) e' show ?thesis by simp
  qed
  obtain e' where e': "bind_params ps 0 args (env_at s a) = Some e'"
    and m: "map_of e' p = Some (Data Undefined)"
    using b by blast
  let ?s1 = "s\<lparr>envs := envs s @ [e']\<rparr>"
  have lk: "lookup (env_at ?s1 (length (envs s))) p = Some (Data Undefined)"
    by (simp only: env_at_new lookup_marker [OF m])
  have v: "evaluateExpression (Suc n) (Str p) (length (envs s)) ?s1
               = (Inl (UndefinedSymbol p), ?s1)"
    using lk by (intro value_of_unbound) simp
  have c1: "fst (call_function (evaluateExpression (Suc n)) a (Arr i ps) (Str p # body) args s)
        = Inl (UndefinedSymbol p)"
    unfolding call_function_array e' using v
    by (simp only: option.case eval_forms.simps split: prod.splits) simp
  have c2: "fst (call_function (evaluateExpression (Suc n)) a (Arr i ps)
                (Arr j (Str p # rest) # body) args s) = Inl (NotAFunction p)"
    if sp: "p \<noteq> ''quote'' \<and> p \<noteq> ''if'' \<and> p \<noteq> ''defun''"
  proof -
    have "evaluateExpression (Suc n) (Arr j (Str p # rest)) (length (envs s)) ?s1
               = (Inl (NotAFunction p), ?s1)"
      using lk sp by (intro head_of_unbound) simp_all
    then show ?thesis
      unfolding call_function_array e'
      by (simp only: option.case eval_forms.simps split: prod.splits) simp
  qed
  have g: "fst (evaluateExpression (Suc n) (Str p) l t) = Inl (UndefinedSymbol p)
          \<and> fst (evaluateExpression (Suc n) (Str p) l' t') = Inl (UndefinedSymbol p)
          \<and> (p \<noteq> ''quote'' \<and> p \<noteq> ''if'' \<and> p \<noteq> ''defun'' \<longrightarrow>
               fst (evaluateExpression (Suc n) (Arr j (Str p # rest)) l t)
                 = Inl (NotAFunction p)
               \<and> fst (evaluateExpression (Suc n) (Arr j (Str p # rest)) l' t')
                   = Inl (NotAFunction p))"
    if m1: "map_of (env_at t l) p = Some (Data Undefined)"
      and m2: "map_of (env_at t' l') p = None" and ni: "\<not> inherited_function p"
    for t l t' l'
  proof -
    have l1: "lookup (env_at t l) p = Some (Data Undefined)" by (rule lookup_marker [OF m1])
    have l2: "lookup (env_at t' l') p = None" by (rule lookup_absent [OF m2 ni pp])
    show ?thesis
      using l1 l2
      by (simp del: evaluateExpression.simps add: value_of_unbound head_of_unbound)
  qed
  from b c1 c2 g show ?thesis by blast
qed

theorem unfilled_parameter_is_unbound_witness:
  "(\<exists>e'. bind_params [Str ''x'', Str ''y''] 0 [Num (Fin 1)] [] = Some e'
        \<and> map_of e' ''y'' = Some (Data Undefined))
   \<and> fst (call_function (evaluateExpression 1) 0 (Arr 0 [Str ''x'', Str ''y'']) [Str ''y'']
            [Num (Fin 1)] new_interp) = Inl (UndefinedSymbol ''y'')
   \<and> fst (call_function (evaluateExpression 1) 0 (Arr 0 [Str ''x'', Str ''y''])
            [Arr 1 [Str ''y'']] [Num (Fin 1)] new_interp) = Inl (NotAFunction ''y'')
   \<and> fst (evaluateExpression 1 (Str ''y'') 0 \<lparr>envs = [[(''y'', Data Undefined)]],
            output_buffer = [], next_id = 0\<rparr>) = Inl (UndefinedSymbol ''y'')
   \<and> fst (evaluateExpression 1 (Str ''y'') 0 new_interp) = Inl (UndefinedSymbol ''y'')
   \<and> fst (evaluate 3 ''(defun f (x y) y) (f 1)'' new_interp) = Inl (UndefinedSymbol ''y'')
   \<and> fst (evaluate 3 ''(defun f (x y) z) (f 1)'' new_interp) = Inl (UndefinedSymbol ''z'')"
proof -
  let ?t = "\<lparr>envs = [[(''y'', Data Undefined)]], output_buffer = [], next_id = 0\<rparr>"
  have e: "fst (evaluate 3 ''(defun f (x y) y) (f 1)'' new_interp) = Inl (UndefinedSymbol ''y'')"
    "fst (evaluate 3 ''(defun f (x y) z) (f 1)'' new_interp) = Inl (UndefinedSymbol ''z'')"
    by code_simp+
  have h: "map_of (env_at ?t 0) ''y'' = Some (Data Undefined)"
    "map_of (env_at new_interp 0) ''y'' = None" "\<not> inherited_function ''y''"
    by (simp_all add: env_at_def new_interp_def createGlobalEnvironment_def
          inherited_function_def)
  from unfilled_parameter_is_unbound [of 1 "[Str ''x'', Str ''y'']" "''y''" "[Num (Fin 1)]"
        "[]" 0 0 0 "[]" new_interp 1 "[]"]
  have a: "(\<exists>e'. bind_params [Str ''x'', Str ''y''] 0 [Num (Fin 1)] [] = Some e'
        \<and> map_of e' ''y'' = Some (Data Undefined))"
    and b: "fst (call_function (evaluateExpression 1) 0 (Arr 0 [Str ''x'', Str ''y''])
            [Str ''y''] [Num (Fin 1)] new_interp) = Inl (UndefinedSymbol ''y'')"
    and c: "fst (call_function (evaluateExpression 1) 0 (Arr 0 [Str ''x'', Str ''y''])
            [Arr 1 [Str ''y'']] [Num (Fin 1)] new_interp) = Inl (NotAFunction ''y'')"
    and d: "\<forall>t l t' l'. map_of (env_at t l) ''y'' = Some (Data Undefined) \<longrightarrow>
          map_of (env_at t' l') ''y'' = None \<longrightarrow> \<not> inherited_function ''y'' \<longrightarrow>
          fst (evaluateExpression 1 (Str ''y'') l t) = Inl (UndefinedSymbol ''y'')
          \<and> fst (evaluateExpression 1 (Str ''y'') l' t') = Inl (UndefinedSymbol ''y'')"
    by simp_all
  from d h have "fst (evaluateExpression 1 (Str ''y'') 0 ?t) = Inl (UndefinedSymbol ''y'')"
    "fst (evaluateExpression 1 (Str ''y'') 0 new_interp) = Inl (UndefinedSymbol ''y'')"
    by blast+
  with a b c e show ?thesis by (simp only: simp_thms)
qed

text \<open>
  The claim has every reference to an unfilled parameter raise the error of a symbol with
  no binding, \<open>UndefinedSymbol\<close>. In the code the parameter \<^verbatim>\<open>y\<close> as the head of a list raises
  \<open>NotAFunction\<close>, and after a \<^verbatim>\<open>defun\<close> of the body has bound it again it raises
  \<open>FunctionAsValue\<close>. The marker and absence are told apart for a name that every
  environment inherits: the unfilled parameter \<^verbatim>\<open>constructor\<close> raises \<open>UndefinedSymbol\<close>, the
  symbol \<^verbatim>\<open>constructor\<close> with no binding raises \<open>FunctionAsValue\<close>. The unfilled parameter
  \<^verbatim>\<open>__proto__\<close> is not bound at all.
\<close>

theorem unfilled_parameter_counterexample:
  "fst (evaluate 4 ''(defun f (x y) (y)) (f 1)'' new_interp) = Inl (NotAFunction ''y'')
   \<and> fst (evaluate 4 ''(defun f (x y) (defun y () 1) y) (f 1)'' new_interp)
       = Inl (FunctionAsValue ''y'')
   \<and> fst (evaluate 4 ''(defun f (constructor) constructor) (f)'' new_interp)
       = Inl (UndefinedSymbol ''constructor'')
   \<and> fst (evaluate 4 ''constructor'' new_interp) = Inl (FunctionAsValue ''constructor'')
   \<and> bind_params [Str ''__proto__''] 0 [] [] = Some []"
  by code_simp

section \<open>Equality\<close>

lemma strict_equal_iff:
  "strict_equal a b \<longleftrightarrow>
     (\<exists>x. a = Num x \<and> b = Num x \<and> x \<noteq> NaN) \<or> (\<exists>t. a = Str t \<and> b = Str t)
     \<or> (\<exists>c. a = Bool c \<and> b = Bool c) \<or> (a = Null \<and> b = Null)
     \<or> (a = Undefined \<and> b = Undefined) \<or> (\<exists>i xs ys. a = Arr i xs \<and> b = Arr i ys)"
  by (cases a; cases b) auto

text \<open>
  C3, as the code has it. The primitive \<^verbatim>\<open>=\<close> is the host's \<^verbatim>\<open>a === b\<close> on its first two
  arguments: true exactly for the same number other than \<^verbatim>\<open>NaN\<close>, the same symbol, the same
  boolean, two nils, two \<^verbatim>\<open>undefined\<close>, or one and the same array. Two arrays of different
  identities are unequal, also when their elements are equal.
\<close>

theorem equality_is_identity:
  "apply_prim PEq (a # b # rest) s = (Inr (Bool (strict_equal a b)), s)
   \<and> (strict_equal a b \<longleftrightarrow>
        (\<exists>x. a = Num x \<and> b = Num x \<and> x \<noteq> NaN) \<or> (\<exists>t. a = Str t \<and> b = Str t)
        \<or> (\<exists>c. a = Bool c \<and> b = Bool c) \<or> (a = Null \<and> b = Null)
        \<or> (a = Undefined \<and> b = Undefined) \<or> (\<exists>i xs ys. a = Arr i xs \<and> b = Arr i ys))
   \<and> (i \<noteq> j \<longrightarrow> apply_prim PEq [Arr i xs, Arr j xs] s = (Inr (Bool False), s))"
  using strict_equal_iff [of a b] by (simp add: apply_prim_def arg_def)

theorem equality_is_identity_witness:
  "apply_prim PEq [Arr 1 [Str ''a''], Arr 1 [Str ''a'']] new_interp = (Inr (Bool True), new_interp)
   \<and> apply_prim PEq [Arr 1 [Str ''a''], Arr 2 [Str ''a'']] new_interp
       = (Inr (Bool False), new_interp)
   \<and> fst (evaluate 4 ''(defun same (x) (= x x)) (same '(1 2))'' new_interp) = Inr (''T'', ''T'')"
proof -
  have "fst (evaluate 4 ''(defun same (x) (= x x)) (same '(1 2))'' new_interp) = Inr (''T'', ''T'')"
    by code_simp
  then show ?thesis
    using equality_is_identity [of "Arr 1 [Str ''a'']" "Arr 1 [Str ''a'']" "[]" new_interp
            1 2 "[Str ''a'']"]
    by simp
qed

text \<open>
  The two lists of \<^verbatim>\<open>(= '(1 2) '(1 2))\<close> are structurally equal, and \<^verbatim>\<open>=\<close> returns false.
\<close>

theorem equality_counterexample:
  "same_structure (Arr 1 [Num (Fin 1), Num (Fin 2)]) (Arr 3 [Num (Fin 1), Num (Fin 2)])
   \<and> apply_prim PEq [Arr 1 [Num (Fin 1), Num (Fin 2)], Arr 3 [Num (Fin 1), Num (Fin 2)]] new_interp
       = (Inr (Bool False), new_interp)
   \<and> fst (evaluate 3 ''(= '(1 2) '(1 2))'' new_interp) = Inr (''NIL'', ''NIL'')"
proof -
  have "fst (evaluate 3 ''(= '(1 2) '(1 2))'' new_interp) = Inr (''NIL'', ''NIL'')"
    by code_simp
  then show ?thesis by (simp add: same_structure_def apply_prim_def arg_def)
qed

section \<open>Atoms\<close>

lemma trim_token: "t \<noteq> [] \<Longrightarrow> \<forall>c\<in>set t. \<not> is_space c \<Longrightarrow> trim t = t"
proof -
  assume a: "t \<noteq> []" "\<forall>c\<in>set t. \<not> is_space c"
  have d: "dropWhile is_space u = u" if "\<forall>c\<in>set u. \<not> is_space c" for u
    using that by (cases u) simp_all
  have "dropWhile is_space (rev t) = rev t" using a by (intro d) simp
  then show ?thesis using a by (simp add: trim_def d)
qed

lemma Number_numeric:
  assumes "t \<noteq> []" and "\<forall>c\<in>set t. \<not> is_space c"
  shows "\<not> isNaN (Number t)
     \<longleftrightarrow> is_decimal_literal t \<or> is_infinity_literal t \<or> is_radix_literal t"
proof -
  have "trim t = t" using assms by (rule trim_token)
  then show ?thesis
    using assms(1)
    by (cases t)
       (auto simp: Number_def isNaN_def is_decimal_literal_def is_infinity_literal_def
          is_radix_literal_def strip_sign_def Let_def split: option.splits)
qed

text \<open>
  C6, as the code has it. A token that is none of the three markers is a number exactly
  when the host's \<^verbatim>\<open>Number\<close> reads the whole token: a decimal literal, \<^verbatim>\<open>Infinity\<close> with an
  optional sign, or a binary, octal or hexadecimal integer literal. Any other token is the
  symbol of its lower-case text.
\<close>

theorem atom_classification:
  assumes "index < length tokens" and "is_atom (tokens ! index)"
    and "tokens ! index \<noteq> []" and "\<forall>c\<in>set (tokens ! index). \<not> is_space c"
  shows "parseExpression tokens index k =
     (if is_decimal_literal (tokens ! index) \<or> is_infinity_literal (tokens ! index)
         \<or> is_radix_literal (tokens ! index)
      then Inr (Num (Number (tokens ! index)), index + 1, k)
      else Inr (Str (toLowerCase (tokens ! index)), index + 1, k))"
  using Number_numeric [OF assms(3,4)] by (simp add: parseExpression_atom [OF assms(1,2)])

theorem atom_classification_witness:
  "parseExpression [''3abc''] 0 0 = Inr (Str ''3abc'', 1, 0)
   \<and> parseExpression [''-1.5e2''] 0 0 = Inr (Num (Fin (- 150)), 1, 0)
   \<and> parseExpression [''Foo''] 0 0 = Inr (Str ''foo'', 1, 0)"
proof -
  have a: "is_atom ''3abc''" "is_atom ''-1.5e2''" "is_atom ''Foo''"
    by (simp_all add: is_atom_def quote_char_def)
  have s: "\<forall>c\<in>set ''3abc''. \<not> is_space c" "\<forall>c\<in>set ''-1.5e2''. \<not> is_space c"
    "\<forall>c\<in>set ''Foo''. \<not> is_space c"
    by (simp_all add: is_space_def)
  have v: "\<not> is_decimal_literal ''3abc''" "\<not> is_infinity_literal ''3abc''"
    "\<not> is_radix_literal ''3abc''" "is_decimal_literal ''-1.5e2''"
    "\<not> is_decimal_literal ''Foo''" "\<not> is_infinity_literal ''Foo''"
    "\<not> is_radix_literal ''Foo''"
    "Number ''-1.5e2'' = Fin (- 150)" "toLowerCase ''Foo'' = ''foo''"
    "toLowerCase ''3abc'' = ''3abc''"
    by code_simp+
  show ?thesis
    using atom_classification [of 0 "[''3abc'']" 0] atom_classification [of 0 "[''-1.5e2'']" 0]
      atom_classification [of 0 "[''Foo'']" 0] a s v
    by simp
qed

text \<open>
  \<^verbatim>\<open>0x10\<close> and \<^verbatim>\<open>Infinity\<close> are no decimal numeric literals, and the parser reads them as
  numbers.
\<close>

theorem atom_classification_counterexample:
  "is_atom ''0x10'' \<and> \<not> is_decimal_literal ''0x10''
   \<and> parseExpression [''0x10''] 0 0 = Inr (Num (Fin 16), 1, 0)
   \<and> is_atom ''Infinity'' \<and> \<not> is_decimal_literal ''Infinity''
   \<and> parseExpression [''Infinity''] 0 0 = Inr (Num PosInf, 1, 0)"
proof -
  have "is_atom ''0x10''" "is_atom ''Infinity''"
    by (simp_all add: is_atom_def quote_char_def)
  moreover have "\<not> is_decimal_literal ''0x10''" "\<not> is_decimal_literal ''Infinity''"
    "parseExpression [''0x10''] 0 0 = Inr (Num (Fin 16), 1, 0)"
    "parseExpression [''Infinity''] 0 0 = Inr (Num PosInf, 1, 0)"
    by code_simp+
  ultimately show ?thesis by simp
qed

section \<open>Closures\<close>

text \<open>
  \<open>frame a s s'\<close>: from \<open>s\<close> to \<open>s'\<close> no environment but the one at \<open>a\<close> has changed, and
  none has been removed; \<open>preserved s s'\<close>: no environment of \<open>s\<close> has changed. An
  evaluation in the environment at \<open>a\<close> changes that environment only (by \<^verbatim>\<open>defun\<close>), and a
  call changes none that was there before.
\<close>

lemma bind_params_other:
  "x \<notin> set (map to_string ps) \<Longrightarrow> bind_params ps i args e = Some e' \<Longrightarrow>
   map_of e' x = map_of e x"
proof (induction ps arbitrary: i e)
  case Nil
  then show ?case by simp
next
  case (Cons q ps)
  show ?case
  proof (cases "to_string q = ''__proto__''")
    case True
    with Cons.prems have "bind_params ps (i + 1) args e = Some e'"
      by (simp split: if_splits)
    with Cons.IH [of "i + 1" e] Cons.prems(1) show ?thesis by simp
  next
    case False
    let ?e = "env_set (to_string q) (Data (arg args i)) e"
    from False Cons.prems have "bind_params ps (i + 1) args ?e = Some e'" by simp
    with Cons.IH [of "i + 1" ?e] Cons.prems(1) show ?thesis by (simp add: env_set_def)
  qed
qed

lemma frame_refl: "frame a s s"
  by (simp add: frame_def)

lemma frame_trans: "frame a s s1 \<Longrightarrow> frame a s1 s2 \<Longrightarrow> frame a s s2"
  by (auto simp: frame_def)

lemma preserved_frame: "preserved s s' \<Longrightarrow> frame a s s'"
  by (simp add: frame_def preserved_def)

lemma eval_args_frame:
  assumes "\<And>x s. frame a s (snd (ev x s))"
  shows "frame a s (snd (eval_args ev xs s))"
proof (induction xs arbitrary: s)
  case Nil
  show ?case by (simp add: frame_refl)
next
  case (Cons x xs)
  obtain r s1 where e: "ev x s = (r, s1)" by (cases "ev x s")
  then have f1: "frame a s s1" using assms [of s x] by simp
  show ?case
  proof (cases r)
    case (Inl err)
    with e f1 show ?thesis by simp
  next
    case (Inr v)
    obtain r2 s2 where e2: "eval_args ev xs s1 = (r2, s2)" by (cases "eval_args ev xs s1")
    then have "frame a s1 s2" using Cons.IH [of s1] by simp
    with f1 have "frame a s s2" by (rule frame_trans)
    with e Inr e2 show ?thesis by (cases r2) simp_all
  qed
qed

lemma eval_forms_frame:
  assumes "\<And>x s. frame a s (snd (ev x s))"
  shows "frame a s (snd (eval_forms ev r0 xs s))"
proof (induction xs arbitrary: s r0)
  case Nil
  show ?case by (simp add: frame_refl)
next
  case (Cons x xs)
  obtain r s1 where e: "ev x s = (r, s1)" by (cases "ev x s")
  then have f1: "frame a s s1" using assms [of s x] by simp
  show ?case
  proof (cases r)
    case (Inl err)
    with e f1 show ?thesis by simp
  next
    case (Inr v)
    have "frame a s1 (snd (eval_forms ev v xs s1))" by (rule Cons.IH)
    with f1 have "frame a s (snd (eval_forms ev v xs s1))" by (rule frame_trans)
    with e Inr show ?thesis by simp
  qed
qed

lemma apply_prim_envs: "envs (snd (apply_prim p args s)) = envs s"
  by (cases p)
     (auto simp: apply_prim_def new_array_def split: list.splits val.splits option.splits)

lemma apply_prim_frame: "frame a s (snd (apply_prim p args s))"
  by (simp add: frame_def apply_prim_envs)

lemma call_function_preserved:
  assumes "\<And>x l s. frame l s (snd (ev x l s))"
  shows "preserved s (snd (call_function ev c params body args s))"
proof (cases params)
  case (Arr i ps)
  let ?l = "length (envs s)"
  show ?thesis
  proof (cases "bind_params ps 0 args (env_at s c)")
    case None
    then show ?thesis
      unfolding Arr call_function_array by (simp add: preserved_def nth_append)
  next
    case (Some e')
    let ?s1 = "s\<lparr>envs := envs s @ [e']\<rparr>"
    have "frame ?l ?s1 (snd (eval_forms (\<lambda>form. ev form ?l) Null body ?s1))"
      by (rule eval_forms_frame) (rule assms)
    then show ?thesis
      unfolding Arr call_function_array Some
      by (auto simp: frame_def preserved_def nth_append)
  qed
qed (auto simp: call_function_def Let_def preserved_def nth_append)

lemma application_frame:
  assumes ev: "\<And>x l s. frame l s (snd (ev x l s))"
  shows "frame a s (snd (application ev first rest a s))"
proof -
  note app = application_def
  obtain r s1 where hd: "function_of ev first a s = (r, s1)"
    by (cases "function_of ev first a s")
  have f1: "frame a s s1"
  proof (cases "\<exists>f. first = Str f")
    case True
    with hd show ?thesis by (auto simp: function_of_def frame_refl)
  next
    case False
    then have "function_of ev first a s = (case ev first a s of
                 (Inl e, s1) \<Rightarrow> (Inl e, s1)
               | (Inr v, s1) \<Rightarrow> (Inr (Some (Data v)), s1))"
      by (cases first) (simp_all add: function_of_def)
    with hd have "s1 = snd (ev first a s)"
      by (auto split: prod.splits sum.splits)
    then show ?thesis by (simp add: ev)
  qed
  have f2: "frame a s (snd (eval_args (\<lambda>x. ev x a) rest s1))"
    using f1 eval_args_frame [of a "\<lambda>x. ev x a" s1 rest] ev frame_trans by blast
  show ?thesis
  proof (cases r)
    case (Inl e)
    with hd f1 show ?thesis unfolding app by simp
  next
    case (Inr fn)
    show ?thesis
    proof (cases fn)
      case None
      with hd f1 Inr show ?thesis unfolding app by simp
    next
      case (Some b)
      obtain ra s2 where ea: "eval_args (\<lambda>x. ev x a) rest s1 = (ra, s2)"
        by (cases "eval_args (\<lambda>x. ev x a) rest s1")
      with f2 have f3: "frame a s s2" by simp
      show ?thesis
      proof (cases b)
        case (Data v)
        with hd f1 Inr Some show ?thesis unfolding app by simp
      next
        case HostPrototype
        with hd f1 Inr Some show ?thesis unfolding app by simp
      next
        case HostFunction
        with hd Inr Some ea f3 show ?thesis unfolding app by (cases ra) simp_all
      next
        case (Prim p)
        show ?thesis
        proof (cases ra)
          case (Inl e)
          with hd Inr Some Prim ea f3 show ?thesis unfolding app by simp
        next
          case r: (Inr vs)
          have "frame a s (snd (apply_prim p vs s2))"
            using f3 apply_prim_frame frame_trans by blast
          with hd Inr Some Prim ea r show ?thesis unfolding app by simp
        qed
      next
        case (Closure c params body)
        show ?thesis
        proof (cases ra)
          case (Inl e)
          with hd Inr Some Closure ea f3 show ?thesis unfolding app by simp
        next
          case r: (Inr vs)
          have "frame a s2 (snd (call_function ev c params body vs s2))"
            by (intro preserved_frame call_function_preserved ev)
          with f3 have "frame a s (snd (call_function ev c params body vs s2))"
            by (rule frame_trans)
          with hd Inr Some Closure ea r show ?thesis unfolding app by simp
        qed
      qed
    qed
  qed
qed

lemma set_binding_frame: "frame a s (set_binding a key b s)"
  by (simp add: frame_def set_binding_def)

lemma evaluateExpression_frame: "frame a s (snd (evaluateExpression n expr a s))"
proof (induction n arbitrary: expr a s)
  case 0
  show ?case by (simp add: frame_refl)
next
  case (Suc n)
  show ?case
  proof (cases expr)
    case (Arr i xs)
    show ?thesis
    proof (cases xs)
      case Nil
      with Arr show ?thesis by (simp add: frame_refl)
    next
      case (Cons first rest)
      consider (q) "first = Str ''quote''" | (i) "first = Str ''if''"
        | (d) "first = Str ''defun''"
        | (ap) "first \<noteq> Str ''quote''" "first \<noteq> Str ''if''" "first \<noteq> Str ''defun''"
        by blast
      then show ?thesis
      proof cases
        case q
        with Arr Cons show ?thesis by (simp add: frame_refl)
      next
        case d
        with Arr Cons show ?thesis by (simp add: set_binding_frame frame_refl Let_def)
      next
        case i
        obtain r s1 where c: "evaluateExpression n (arg xs 1) a s = (r, s1)"
          by (cases "evaluateExpression n (arg xs 1) a s")
        then have f1: "frame a s s1" using Suc.IH [of a s "arg xs 1"] by simp
        show ?thesis
        proof (cases r)
          case (Inl e)
          with Arr Cons i c f1 show ?thesis by simp
        next
          case (Inr v)
          have "frame a s1 (snd (evaluateExpression n (arg xs (if truthy v then 2 else 3)) a s1))"
            by (rule Suc.IH)
          with f1 have "frame a s (snd (evaluateExpression n (arg xs (if truthy v then 2 else 3)) a s1))"
            by (rule frame_trans)
          with Arr Cons i c Inr show ?thesis by (auto split: if_splits)
        qed
      next
        case ap
        have "frame a s (snd (application (evaluateExpression n) first rest a s))"
          by (rule application_frame) (rule Suc.IH)
        with Arr Cons ap show ?thesis by simp
      qed
    qed
  qed (auto simp: frame_refl split: option.splits bound.splits)
qed

lemma defun_binds:
  "to_string name \<noteq> ''__proto__'' \<Longrightarrow>
   evaluateExpression (Suc n) (Arr i (Str ''defun'' # name # params # body)) a s
     = (Inr name, set_binding a (to_string name) (Closure a params body) s)"
  by (simp add: arg_def Let_def)

lemma env_at_set_binding:
  "a < length (envs s) \<Longrightarrow> env_at (set_binding a key b s) a = (key, b) # env_at s a"
  by (simp add: env_at_def set_binding_def env_set_def)

lemma lookup_own: "map_of e key = Some b \<Longrightarrow> lookup e key = Some b"
  by (simp add: lookup_def)

lemma closure_call:
  assumes f: "f \<noteq> ''quote''" "f \<noteq> ''if''" "f \<noteq> ''defun''"
    and lk: "lookup (env_at t a) f = Some (Closure c (Arr j ps) body)"
    and ea: "eval_args (\<lambda>x. evaluateExpression n x a) rest t = (Inr args, t1)"
    and bp: "bind_params ps 0 args (env_at t1 c) = Some e'"
  shows "evaluateExpression (Suc n) (Arr i (Str f # rest)) a t =
           eval_forms (\<lambda>form. evaluateExpression n form (length (envs t1))) Null body
             (t1\<lparr>envs := envs t1 @ [e']\<rparr>)"
  using f lk ea bp by (simp add: application_def function_of_def call_function_array)

lemma call_of_call:
  assumes f: "f \<noteq> ''quote''" "f \<noteq> ''if''" "f \<noteq> ''defun''"
    and g: "g \<noteq> ''quote''" "g \<noteq> ''if''" "g \<noteq> ''defun''"
    and lf: "lookup (env_at t a) f = Some (Closure a (Arr j []) [Arr k [Str g]])"
    and lg: "lookup (env_at t a) g = Some (Closure c (Arr j' []) [Arr k' [Str ''quote'', v]])"
  shows "fst (evaluateExpression (Suc (Suc (Suc n))) (Arr i [Str f]) a t) = Inr v"
proof -
  let ?t1 = "t\<lparr>envs := envs t @ [env_at t a]\<rparr>"
  let ?l = "length (envs t)"
  have 1: "evaluateExpression (Suc (Suc (Suc n))) (Arr i [Str f]) a t
      = eval_forms (\<lambda>form. evaluateExpression (Suc (Suc n)) form ?l) Null [Arr k [Str g]] ?t1"
    by (rule closure_call [OF f lf]) simp_all
  have lg': "lookup (env_at ?t1 ?l) g = Some (Closure c (Arr j' []) [Arr k' [Str ''quote'', v]])"
    using lg by (simp only: env_at_new)
  let ?t2 = "?t1\<lparr>envs := envs ?t1 @ [env_at ?t1 c]\<rparr>"
  have 2: "evaluateExpression (Suc (Suc n)) (Arr k [Str g]) ?l ?t1
      = eval_forms (\<lambda>form. evaluateExpression (Suc n) form (length (envs ?t1))) Null
          [Arr k' [Str ''quote'', v]] ?t2"
    by (rule closure_call [OF g lg']) simp_all
  have 3: "evaluateExpression (Suc n) (Arr k' [Str ''quote'', v]) l u = (Inr v, u)" for l u
    by (simp add: arg_def)
  show ?thesis
    unfolding 1 by (simp only: eval_forms.simps 2 3 split: prod.splits) simp
qed

lemma set_binding_length: "length (envs (set_binding a key b s)) = length (envs s)"
  by (simp add: set_binding_def)

text \<open>
  C1, as the code has it. \<^verbatim>\<open>defun\<close> of \<open>f\<close> in the environment \<open>E\<close> (at the address \<open>a\<close>) binds
  \<open>f\<close> in \<open>E\<close> to a function that keeps a reference to \<open>E\<close> and copies nothing. A call of \<open>f\<close>
  in a later state evaluates the arguments, copies the bindings \<open>E\<close> has then into a new
  environment, binds the parameters there and evaluates the body there; outside the
  parameters the new environment has the bindings of \<open>E\<close> at the call, and the call changes
  no environment that existed before it. So when \<open>f\<close> calls \<open>g\<close>, a call of \<open>f\<close> runs the
  function that \<open>g\<close> is bound to in \<open>E\<close> when \<open>f\<close> is called: after \<^verbatim>\<open>(defun f () (g))\<close> and then
  \<^verbatim>\<open>(defun g () (quote v))\<close> in \<open>E\<close>, the call \<^verbatim>\<open>(f)\<close> returns \<open>v\<close>, whatever \<open>g\<close> was bound to when
  \<open>f\<close> was defined.
\<close>

theorem closure_sees_bindings_at_call:
  assumes "a < length (envs s)"
    and "f \<notin> {''quote'', ''if'', ''defun'', ''__proto__''}"
    and "g \<notin> {''quote'', ''if'', ''defun'', ''__proto__''}"
    and "f \<noteq> g"
  shows "evaluateExpression (Suc n) (Arr i (Str ''defun'' # Str f # params # body)) a s
           = (Inr (Str f), set_binding a f (Closure a params body) s)
    \<and> (\<forall>t t1 c j ps fbody rest args e'.
          lookup (env_at t a) f = Some (Closure c (Arr j ps) fbody) \<longrightarrow>
          eval_args (\<lambda>x. evaluateExpression n x a) rest t = (Inr args, t1) \<longrightarrow>
          bind_params ps 0 args (env_at t1 c) = Some e' \<longrightarrow>
            evaluateExpression (Suc n) (Arr i (Str f # rest)) a t
              = eval_forms (\<lambda>form. evaluateExpression n form (length (envs t1))) Null fbody
                  (t1\<lparr>envs := envs t1 @ [e']\<rparr>)
            \<and> (\<forall>x. x \<notin> set (map to_string ps) \<longrightarrow> map_of e' x = map_of (env_at t1 c) x)
            \<and> preserved t1
                (snd (call_function (evaluateExpression n) c (Arr j ps) fbody args t1)))
    \<and> (\<forall>t c j k j' k'.
          lookup (env_at t a) f = Some (Closure a (Arr j []) [Arr k [Str g]]) \<longrightarrow>
          lookup (env_at t a) g = Some (Closure c (Arr j' []) [Arr k' [Str ''quote'', v]]) \<longrightarrow>
          fst (evaluateExpression (Suc (Suc (Suc n))) (Arr i [Str f]) a t) = Inr v)
    \<and> (let s1 = snd (evaluateExpression (Suc n)
                       (Arr i1 [Str ''defun'', Str f, Arr i2 [], Arr i3 [Str g]]) a s);
            s2 = snd (evaluateExpression (Suc n)
                       (Arr i4 [Str ''defun'', Str g, Arr i5 [], Arr i6 [Str ''quote'', v]]) a s1)
        in fst (evaluateExpression (Suc (Suc (Suc n))) (Arr i [Str f]) a s2) = Inr v)"
proof -
  from assms(2) have f: "f \<noteq> ''quote''" "f \<noteq> ''if''" "f \<noteq> ''defun''"
    and fp: "to_string (Str f) \<noteq> ''__proto__''" by simp_all
  from assms(3) have g: "g \<noteq> ''quote''" "g \<noteq> ''if''" "g \<noteq> ''defun''"
    and gp: "to_string (Str g) \<noteq> ''__proto__''" by simp_all
  have 1: "evaluateExpression (Suc n) (Arr i (Str ''defun'' # Str f # params # body)) a s
           = (Inr (Str f), set_binding a f (Closure a params body) s)"
    using defun_binds [OF fp] by simp
  have 2: "evaluateExpression (Suc n) (Arr i (Str f # rest)) a t
              = eval_forms (\<lambda>form. evaluateExpression n form (length (envs t1))) Null fbody
                  (t1\<lparr>envs := envs t1 @ [e']\<rparr>)
            \<and> (\<forall>x. x \<notin> set (map to_string ps) \<longrightarrow> map_of e' x = map_of (env_at t1 c) x)
            \<and> preserved t1
                (snd (call_function (evaluateExpression n) c (Arr j ps) fbody args t1))"
    if "lookup (env_at t a) f = Some (Closure c (Arr j ps) fbody)"
      and "eval_args (\<lambda>x. evaluateExpression n x a) rest t = (Inr args, t1)"
      and "bind_params ps 0 args (env_at t1 c) = Some e'"
    for t t1 c j ps fbody rest args e'
  proof (intro conjI allI impI)
    show "evaluateExpression (Suc n) (Arr i (Str f # rest)) a t
              = eval_forms (\<lambda>form. evaluateExpression n form (length (envs t1))) Null fbody
                  (t1\<lparr>envs := envs t1 @ [e']\<rparr>)"
      by (rule closure_call [OF f that])
    show "map_of e' x = map_of (env_at t1 c) x" if "x \<notin> set (map to_string ps)" for x
      using that \<open>bind_params ps 0 args (env_at t1 c) = Some e'\<close> by (rule bind_params_other)
    show "preserved t1
                (snd (call_function (evaluateExpression n) c (Arr j ps) fbody args t1))"
      by (rule call_function_preserved) (rule evaluateExpression_frame)
  qed
  have 3: "fst (evaluateExpression (Suc (Suc (Suc n))) (Arr i [Str f]) a t) = Inr v"
    if "lookup (env_at t a) f = Some (Closure a (Arr j []) [Arr k [Str g]])"
      and "lookup (env_at t a) g = Some (Closure c (Arr j' []) [Arr k' [Str ''quote'', v]])"
    for t c j k j' k'
    by (rule call_of_call [OF f g that])
  let ?cf = "Closure a (Arr i2 []) [Arr i3 [Str g]]"
  let ?cg = "Closure a (Arr i5 []) [Arr i6 [Str ''quote'', v]]"
  let ?s1 = "set_binding a f ?cf s"
  let ?s2 = "set_binding a g ?cg ?s1"
  have d1: "evaluateExpression (Suc n)
              (Arr i1 [Str ''defun'', Str f, Arr i2 [], Arr i3 [Str g]]) a s = (Inr (Str f), ?s1)"
    using defun_binds [OF fp] by simp
  have d2: "evaluateExpression (Suc n)
              (Arr i4 [Str ''defun'', Str g, Arr i5 [], Arr i6 [Str ''quote'', v]]) a ?s1
            = (Inr (Str g), ?s2)"
    using defun_binds [OF gp] by simp
  have a1: "a < length (envs ?s1)" using assms(1) by (simp only: set_binding_length)
  have e2: "env_at ?s2 a = (g, ?cg) # (f, ?cf) # env_at s a"
    by (simp only: env_at_set_binding [OF a1] env_at_set_binding [OF assms(1)])
  have "map_of (env_at ?s2 a) f = Some ?cf" "map_of (env_at ?s2 a) g = Some ?cg"
    unfolding e2 using assms(4) by simp_all
  then have "lookup (env_at ?s2 a) f = Some ?cf" "lookup (env_at ?s2 a) g = Some ?cg"
    by (simp_all only: lookup_own)
  then have 4: "fst (evaluateExpression (Suc (Suc (Suc n))) (Arr i [Str f]) a ?s2) = Inr v"
    by (rule 3)
  have e2e: "(let s1 = snd (evaluateExpression (Suc n)
                       (Arr i1 [Str ''defun'', Str f, Arr i2 [], Arr i3 [Str g]]) a s);
            s2 = snd (evaluateExpression (Suc n)
                       (Arr i4 [Str ''defun'', Str g, Arr i5 [], Arr i6 [Str ''quote'', v]]) a s1)
        in fst (evaluateExpression (Suc (Suc (Suc n))) (Arr i [Str f]) a s2) = Inr v)"
    unfolding Let_def d1 snd_conv d2 by (rule 4)
  from 1 2 3 e2e show ?thesis by blast
qed

theorem closure_sees_bindings_at_call_witness:
  "evaluateExpression 1 (Arr 0 [Str ''defun'', Str ''f'', Arr 1 [], Arr 2 [Str ''g'']]) 0 new_interp
     = (Inr (Str ''f''), set_binding 0 ''f'' (Closure 0 (Arr 1 []) [Arr 2 [Str ''g'']]) new_interp)
   \<and> (let s0 = snd (evaluate 3 ''(defun g () 'old)'' new_interp);
           s1 = snd (evaluateExpression 1
                       (Arr 10 [Str ''defun'', Str ''f'', Arr 11 [], Arr 12 [Str ''g'']]) 0 s0);
           s2 = snd (evaluateExpression 1
                       (Arr 13 [Str ''defun'', Str ''g'', Arr 14 [],
                                Arr 15 [Str ''quote'', Str ''new'']]) 0 s1)
       in fst (evaluateExpression 3 (Arr 16 [Str ''g'']) 0 s0) = Inr (Str ''old'')
          \<and> fst (evaluateExpression 3 (Arr 17 [Str ''f'']) 0 s2) = Inr (Str ''new''))"
proof -
  define s0 where "s0 = snd (evaluate 3 ''(defun g () 'old)'' new_interp)"
  have l0: "0 < length (envs s0)" unfolding s0_def by code_simp
  have old: "fst (evaluateExpression 3 (Arr 16 [Str ''g'']) 0 s0) = Inr (Str ''old'')"
    unfolding s0_def by code_simp
  have n: "''f'' \<notin> {''quote'', ''if'', ''defun'', ''__proto__''}"
    "''g'' \<notin> {''quote'', ''if'', ''defun'', ''__proto__''}" "''f'' \<noteq> ''g''"
    by simp_all
  have l1: "0 < length (envs new_interp)" by (simp add: new_interp_def)
  from closure_sees_bindings_at_call [OF l1 n, where n = 0 and i = 0 and params = "Arr 1 []"
      and body = "[Arr 2 [Str ''g'']]"]
  have a: "evaluateExpression 1
             (Arr 0 [Str ''defun'', Str ''f'', Arr 1 [], Arr 2 [Str ''g'']]) 0 new_interp
     = (Inr (Str ''f''), set_binding 0 ''f'' (Closure 0 (Arr 1 []) [Arr 2 [Str ''g'']]) new_interp)"
    by (simp only: One_nat_def)
  from closure_sees_bindings_at_call [OF l0 n, where n = 0 and i = 17 and v = "Str ''new''"
      and ?i1.0 = 10 and ?i2.0 = 11 and ?i3.0 = 12 and ?i4.0 = 13 and ?i5.0 = 14 and ?i6.0 = 15]
  have b: "(let s1 = snd (evaluateExpression 1
                       (Arr 10 [Str ''defun'', Str ''f'', Arr 11 [], Arr 12 [Str ''g'']]) 0 s0);
           s2 = snd (evaluateExpression 1
                       (Arr 13 [Str ''defun'', Str ''g'', Arr 14 [],
                                Arr 15 [Str ''quote'', Str ''new'']]) 0 s1)
       in fst (evaluateExpression 3 (Arr 17 [Str ''f'']) 0 s2) = Inr (Str ''new''))"
    by (simp only: One_nat_def numeral_3_eq_3)
  from a b old show ?thesis
    unfolding s0_def [symmetric] Let_def by (simp only: simp_thms)
qed

text \<open>
  \<^verbatim>\<open>g\<close> is bound again after \<^verbatim>\<open>f\<close> has been defined, and the later call of \<^verbatim>\<open>f\<close> runs the new
  \<^verbatim>\<open>g\<close>; the body of \<^verbatim>\<open>f\<close> in the bindings of the moment of its definition gives \<^verbatim>\<open>old\<close>.
\<close>

theorem closure_snapshot_counterexample:
  "fst (evaluate 4 ''(defun g () 'old) (defun f () (g)) (defun g () 'new) (f)'' new_interp)
     = Inr (''new'', ''new'')
   \<and> (let s2 = snd (evaluate 4 ''(defun g () 'old) (defun f () (g))'' new_interp) in
        map_of (env_at s2 0) ''f'' = Some (Closure 0 (Arr 4 []) [Arr 5 [Str ''g'']])
        \<and> fst (eval_forms (\<lambda>form. evaluateExpression 3 form 1) Null [Arr 5 [Str ''g'']]
                 (s2\<lparr>envs := envs s2 @ [env_at s2 0]\<rparr>)) = Inr (Str ''old''))"
  by code_simp

section \<open>The output text\<close>























section \<open>A quote marker at the end\<close>

lemma atom_not_quote: "is_atom t \<Longrightarrow> t \<noteq> [quote_char]"
  by (simp add: is_atom_def)

lemma quote_not_paren: "[quote_char] \<noteq> ''(''" "[quote_char] \<noteq> '')''"
  by (simp_all add: quote_char_def)

lemma parse_ends_before_quote:
  shows "tokens \<noteq> [] \<Longrightarrow> last tokens = [quote_char] \<Longrightarrow>
         parseExpression tokens index k = Inl TypeError
       \<or> parseExpression tokens index k = Inl UnexpectedClosing
       \<or> (\<exists>v j k'. parseExpression tokens index k = Inr (v, j, k')
             \<and> j < length tokens)"
    and "tokens \<noteq> [] \<Longrightarrow> last tokens = [quote_char] \<Longrightarrow> i < length tokens \<Longrightarrow>
         parseList tokens i k0 list = Inl TypeError
       \<or> parseList tokens i k0 list = Inl UnexpectedClosing
       \<or> (\<exists>l j k'. parseList tokens i k0 list = Inr (l, j, k')
             \<and> j < length tokens \<and> tokens ! j = '')'')"
proof (induction tokens index k and tokens i k0 list
       rule: parseExpression_parseList.induct)
  case (1 tokens index k)
  note q = "1.prems"
  have lastq: "tokens ! (length tokens - 1) = [quote_char]"
    using q by (simp add: last_conv_nth)
  have inner: "Suc j < length tokens" if "j < length tokens" "tokens ! j \<noteq> [quote_char]" for j
  proof -
    from that lastq have "j \<noteq> length tokens - 1" by auto
    with that(1) show ?thesis by simp
  qed
  show ?case
  proof (cases "index < length tokens")
    case False
    then show ?thesis by (simp add: parseExpression_end)
  next
    case lt: True
    show ?thesis
    proof (cases "tokens ! index" rule: token_cases)
      case 1
      then have "index \<noteq> length tokens - 1" using lastq quote_not_paren by auto
      with lt have lt1: "index + 1 < length tokens" by simp
      from "1.IH"(1) [OF lt refl 1 q lt1] show ?thesis
        using inner quote_not_paren(2) by (auto simp: parseExpression_open [OF lt 1])
    next
      case 2
      with lt show ?thesis by (simp add: parseExpression_close)
    next
      case 3
      have n: "tokens ! index \<noteq> ''(''" "tokens ! index \<noteq> '')''"
        using 3 quote_not_paren by simp_all
      from "1.IH"(2) [OF lt refl n 3 q] show ?thesis
        by (auto simp: parseExpression_quote [OF lt 3])
    next
      case 4
      then have "index \<noteq> length tokens - 1" using lastq atom_not_quote by auto
      with lt have "index + 1 < length tokens" by simp
      then show ?thesis by (simp add: parseExpression_atom [OF lt 4])
    qed
  qed
next
  case (2 tokens i k list)
  note q = "2.prems"(1,2)
  note lt = "2.prems"(3)
  show ?case
  proof (cases "tokens ! i = '')''")
    case True
    with lt have "parseList tokens i k list = Inr (list, i, k)"
      by (subst parseList_unfold) simp
    with lt True show ?thesis by simp
  next
    case False
    with lt have c: "i < length tokens \<and> tokens ! i \<noteq> '')''" by simp
    then have step: "parseList tokens i k list =
        (case parseExpression tokens i k of
           Inl e \<Rightarrow> Inl e
         | Inr (expr, nextIndex, k') \<Rightarrow> parseList tokens nextIndex k' (list @ [expr]))"
      by (subst parseList_unfold) simp
    from "2.IH"(1) [OF c q] consider
        (e) "parseExpression tokens i k = Inl TypeError
             \<or> parseExpression tokens i k = Inl UnexpectedClosing"
      | (v) v j k' where "parseExpression tokens i k = Inr (v, j, k')" "j < length tokens"
      by blast
    then show ?thesis
    proof cases
      case e
      then show ?thesis unfolding step by auto
    next
      case v
      have m: "max j (i + 1) = j" using parseExpression_advances [OF v(1)] by simp
      from "2.IH"(2) [OF c v(1) refl refl q] v(2) m
      have "parseList tokens j k' (list @ [v]) = Inl TypeError
       \<or> parseList tokens j k' (list @ [v]) = Inl UnexpectedClosing
       \<or> (\<exists>l j' k''. parseList tokens j k' (list @ [v]) = Inr (l, j', k'')
             \<and> j' < length tokens \<and> tokens ! j' = '')'')"
        by simp
      then show ?thesis
        unfolding step using v(1) by simp
    qed
  qed
qed

lemma parse_from_dangling_quote:
  assumes "tokens \<noteq> []" "last tokens = [quote_char]" "i < length tokens"
  shows "parse_from tokens i k result = Inl TypeError
       \<or> parse_from tokens i k result = Inl UnexpectedClosing"
  using assms
proof (induction tokens i k result rule: parse_from_induct)
  case (1 tokens i k result)
  have step: "parse_from tokens i k result =
        (case parseExpression tokens i k of
           Inl e \<Rightarrow> Inl e
         | Inr (expr, nextIndex, k') \<Rightarrow> parse_from tokens nextIndex k' (result @ [expr]))"
    using "1.prems"(3) by (subst parse_from_unfold) simp
  from parse_ends_before_quote(1) [OF "1.prems"(1,2), of i k] consider
      (e) "parseExpression tokens i k = Inl TypeError
           \<or> parseExpression tokens i k = Inl UnexpectedClosing"
    | (v) v j k' where "parseExpression tokens i k = Inr (v, j, k')" "j < length tokens"
    by blast
  then show ?case
  proof cases
    case e
    then show ?thesis unfolding step by auto
  next
    case v
    from "1.IH" [OF "1.prems"(3) v(1) "1.prems"(1,2) v(2)] v(1)
    show ?thesis unfolding step by simp
  qed
qed

lemma unexpected_needs_paren:
  shows "parseExpression tokens index k = Inl UnexpectedClosing \<Longrightarrow> '')'' \<in> set tokens"
    and "parseList tokens i k0 list = Inl UnexpectedClosing \<Longrightarrow> '')'' \<in> set tokens"
proof (induction tokens index k and tokens i k0 list
       rule: parseExpression_parseList.induct)
  case (1 tokens index k)
  note r = "1.prems"
  have lt: "index < length tokens"
    using r parseExpression_end [of index tokens k] by auto
  show ?case
  proof (cases "tokens ! index" rule: token_cases)
    case 1
    with r lt "1.IH"(1) [OF lt refl 1] show ?thesis
      by (auto simp: parseExpression_open split: sum.splits)
  next
    case 2
    with lt show ?thesis by (metis nth_mem)
  next
    case 3
    have n: "tokens ! index \<noteq> ''(''" "tokens ! index \<noteq> '')''"
      using 3 quote_not_paren by simp_all
    from r lt 3 "1.IH"(2) [OF lt refl n 3] show ?thesis
      by (auto simp: parseExpression_quote split: sum.splits)
  next
    case 4
    with r lt show ?thesis
      by (auto simp: parseExpression_atom split: if_splits)
  qed
next
  case (2 tokens i k list)
  note r = "2.prems"
  show ?case
  proof (cases "i < length tokens \<and> tokens ! i \<noteq> '')''")
    case c: True
    then have step: "parseList tokens i k list =
        (case parseExpression tokens i k of
           Inl e \<Rightarrow> Inl e
         | Inr (expr, nextIndex, k') \<Rightarrow> parseList tokens nextIndex k' (list @ [expr]))"
      by (subst parseList_unfold) simp
    show ?thesis
    proof (cases "parseExpression tokens i k")
      case (Inl e)
      with r step "2.IH"(1) [OF c] show ?thesis by simp
    next
      case (Inr p)
      obtain v j k' where p: "p = (v, j, k')" by (cases p)
      have m: "max j (i + 1) = j" using parseExpression_advances Inr p by fastforce
      from "2.IH"(2) [OF c Inr [unfolded p] refl refl] r step Inr p m show ?thesis by simp
    qed
  next
    case False
    with r have False by (subst (asm) parseList_unfold) (auto split: if_splits)
    then show ?thesis ..
  qed
qed

lemma parse_from_unexpected:
  "parse_from tokens i k result = Inl UnexpectedClosing \<Longrightarrow> '')'' \<in> set tokens"
proof (induction tokens i k result rule: parse_from_induct)
  case (1 tokens i k result)
  from "1.prems" have lt: "i < length tokens"
    by (subst (asm) parse_from_unfold) (auto split: if_splits)
  then have step: "parse_from tokens i k result =
        (case parseExpression tokens i k of
           Inl e \<Rightarrow> Inl e
         | Inr (expr, nextIndex, k') \<Rightarrow> parse_from tokens nextIndex k' (result @ [expr]))"
    by (subst parse_from_unfold) simp
  show ?case
  proof (cases "parseExpression tokens i k")
    case (Inl e)
    with "1.prems" step unexpected_needs_paren(1) show ?thesis by simp
  next
    case (Inr p)
    obtain v j k' where p: "p = (v, j, k')" by (cases p)
    from "1.IH" [OF lt Inr [unfolded p]] "1.prems" step Inr p show ?thesis by simp
  qed
qed

lemma evaluate_parse_error:
  "parse code (next_id s) = Inl e \<Longrightarrow> evaluate fuel code s = (Inl e, s\<lparr>output_buffer := []\<rparr>)"
  by (simp add: evaluate_def)

text \<open>
  C7. When the tokens end with a quote marker, parsing fails and \<open>evaluate\<close> throws, but with
  no error of the code for the marker. The quote branch of \<^verbatim>\<open>parseExpression\<close> calls
  \<^verbatim>\<open>parseExpression\<close> at the next index and does not test that a token is there, where the
  list branch tests \<^verbatim>\<open>i >= tokens.length\<close> and throws an error of its own. The token after the
  marker is \<^verbatim>\<open>undefined\<close>, and \<^verbatim>\<open>token.toLowerCase()\<close> throws the host's \<^verbatim>\<open>TypeError\<close>. A \<^verbatim>\<open>)\<close> where
  an expression is expected stops the parser before, with the error of the code for it;
  with no \<^verbatim>\<open>)\<close> among the tokens the error is the \<^verbatim>\<open>TypeError\<close>.
\<close>

theorem dangling_quote_fails:
  assumes "tokenize code \<noteq> []" and "last (tokenize code) = [quote_char]"
  shows "(evaluate fuel code s = (Inl TypeError, s\<lparr>output_buffer := []\<rparr>)
          \<or> evaluate fuel code s = (Inl UnexpectedClosing, s\<lparr>output_buffer := []\<rparr>))
     \<and> (parse code k = Inl TypeError \<or> parse code k = Inl UnexpectedClosing)
     \<and> ('')'' \<notin> set (tokenize code) \<longrightarrow> parse code k = Inl TypeError)"
proof -
  have lt: "0 < length (tokenize code)" using assms(1) by simp
  have p: "parse code k = Inl TypeError \<or> parse code k = Inl UnexpectedClosing" for k
    unfolding parse_def by (rule parse_from_dangling_quote [OF assms lt])
  moreover have "parse code k \<noteq> Inl UnexpectedClosing" if "'')'' \<notin> set (tokenize code)"
    using that parse_from_unexpected [of "tokenize code" 0 k "[]"] by (auto simp: parse_def)
  ultimately show ?thesis
    using p [of "next_id s"] evaluate_parse_error [of code s _ fuel] by auto
qed

theorem dangling_quote_fails_witness:
  "evaluate 5 ''(car ' '' new_interp = (Inl TypeError, new_interp\<lparr>output_buffer := []\<rparr>)
   \<and> parse ''(car ' '' 0 = Inl TypeError"
proof -
  have t: "tokenize ''(car ' '' = [''('', ''car'', [quote_char]]"
    by code_simp
  then have "tokenize ''(car ' '' \<noteq> []" "last (tokenize ''(car ' '') = [quote_char]"
    "'')'' \<notin> set (tokenize ''(car ' '')"
    by (simp_all add: quote_char_def)
  from dangling_quote_fails [OF this(1,2), of 5 new_interp 0] this(3)
  have "parse ''(car ' '' 0 = Inl TypeError" by blast
  moreover from this have "evaluate 5 ''(car ' '' new_interp = (Inl TypeError, new_interp\<lparr>output_buffer := []\<rparr>)"
    by (intro evaluate_parse_error) (simp add: new_interp_def)
  ultimately show ?thesis by simp
qed

text \<open>
  Two inputs that end with a quote marker: one fails with the error of an unexpected
  \<^verbatim>\<open>)\<close>, the other with the host's \<^verbatim>\<open>TypeError\<close>.
\<close>

theorem dangling_quote_examples:
  "last (tokenize '') ' '') = [quote_char] \<and> parse '') ' '' 0 = Inl UnexpectedClosing
   \<and> last (tokenize ''' '') = [quote_char] \<and> parse ''' '' 0 = Inl TypeError"
  by code_simp

section \<open>A list that is never closed\<close>

lemma quotes_applied_drop: "quotes_applied ts \<Longrightarrow> quotes_applied (drop i ts)"
proof (induction ts arbitrary: i rule: quotes_applied.induct)
  case 1
  show ?case by simp
next
  case (2 t)
  then show ?case by (cases i) simp_all
next
  case (3 t u ts)
  then show ?case by (cases i) simp_all
qed

lemma quotes_applied_nth:
  assumes "quotes_applied ts" "i < length ts" "ts ! i = [quote_char]"
  shows "Suc i < length ts \<and> ts ! Suc i \<noteq> '')''"
proof -
  have d: "drop i ts = ts ! i # drop (Suc i) ts"
    using assms(2) by (simp add: Cons_nth_drop_Suc)
  have q: "quotes_applied (drop i ts)" using assms(1) by (rule quotes_applied_drop)
  show ?thesis
  proof (cases "Suc i < length ts")
    case True
    then have "drop (Suc i) ts = ts ! Suc i # drop (Suc (Suc i)) ts"
      by (simp add: Cons_nth_drop_Suc)
    with q d assms(3) True show ?thesis by simp
  next
    case False
    then have "drop (Suc i) ts = []" by simp
    with q d assms(3) show ?thesis by simp
  qed
qed

lemma depth_after_open:
  "i < length ts \<Longrightarrow> ts ! i = ''('' \<Longrightarrow>
   depth_after d (drop i ts) = depth_after (Suc d) (drop (Suc i) ts)"
  by (simp flip: Cons_nth_drop_Suc)

lemma depth_after_close:
  "i < length ts \<Longrightarrow> ts ! i = '')'' \<Longrightarrow>
   depth_after (Suc d) (drop i ts) = depth_after d (drop (Suc i) ts)"
  by (simp flip: Cons_nth_drop_Suc)

lemma depth_after_other:
  "i < length ts \<Longrightarrow> ts ! i \<noteq> ''('' \<Longrightarrow> ts ! i \<noteq> '')'' \<Longrightarrow>
   depth_after d (drop i ts) = depth_after d (drop (Suc i) ts)"
  by (simp flip: Cons_nth_drop_Suc)

lemma parse_unclosed:
  shows "quotes_applied tokens \<Longrightarrow> index < length tokens \<Longrightarrow> tokens ! index \<noteq> '')'' \<Longrightarrow>
      (\<exists>v j k'. parseExpression tokens index k = Inr (v, j, k') \<and> j \<le> length tokens
          \<and> (\<forall>d. depth_after d (drop index tokens) = depth_after d (drop j tokens)))
      \<or> (parseExpression tokens index k = Inl UnmatchedOpening \<and> opens tokens index)"
    and "quotes_applied tokens \<Longrightarrow>
      (\<exists>l j k'. parseList tokens i k0 list = Inr (l, j, k') \<and> j < length tokens
          \<and> (\<forall>d. depth_after (Suc d) (drop i tokens) = depth_after d (drop (Suc j) tokens)))
      \<or> (parseList tokens i k0 list = Inl UnmatchedOpening
          \<and> (\<forall>d. \<exists>d'. depth_after d (drop i tokens) = Some d' \<and> d \<le> d'))"
proof (induction tokens index k and tokens i k0 list
       rule: parseExpression_parseList.induct)
  case (1 tokens index k)
  note qa = "1.prems"(1) and lt = "1.prems"(2) and nc = "1.prems"(3)
  show ?case
  proof (cases "tokens ! index" rule: token_cases)
    case 1
    note d = depth_after_open [OF lt 1]
    from "1.IH"(1) [OF lt refl 1 qa] show ?thesis
    proof
      assume "\<exists>l j k'. parseList tokens (index + 1) (k + 1) [] = Inr (l, j, k')
          \<and> j < length tokens
          \<and> (\<forall>d. depth_after (Suc d) (drop (index + 1) tokens)
                  = depth_after d (drop (Suc j) tokens))"
      then show ?thesis
        by (auto simp: parseExpression_open [OF lt 1] d)
    next
      assume "parseList tokens (index + 1) (k + 1) [] = Inl UnmatchedOpening
          \<and> (\<forall>d. \<exists>d'. depth_after d (drop (index + 1) tokens) = Some d' \<and> d \<le> d')"
      then have "parseExpression tokens index k = Inl UnmatchedOpening"
        and "\<And>d. \<exists>d'. depth_after (Suc d) (drop (Suc index) tokens) = Some d' \<and> Suc d \<le> d'"
        by (auto simp: parseExpression_open [OF lt 1])
      then show ?thesis
        unfolding opens_def d by (metis Suc_le_lessD)
    qed
  next
    case 2
    with nc show ?thesis by simp
  next
    case 3
    have n: "tokens ! index \<noteq> ''(''" "tokens ! index \<noteq> '')''"
      using 3 quote_not_paren by simp_all
    note d = depth_after_other [OF lt n]
    from quotes_applied_nth [OF qa lt 3]
    have nx: "index + 1 < length tokens" "tokens ! (index + 1) \<noteq> '')''" by simp_all
    from "1.IH"(2) [OF lt refl n 3 qa nx] show ?thesis
      by (auto simp: parseExpression_quote [OF lt 3] d opens_def)
  next
    case 4
    then have n: "tokens ! index \<noteq> ''(''" "tokens ! index \<noteq> '')''"
      by (simp_all add: is_atom_def)
    note d = depth_after_other [OF lt n]
    from lt show ?thesis
      by (auto simp: parseExpression_atom [OF lt 4] d)
  qed
next
  case (2 tokens i k list)
  note qa = "2.prems"(1)
  show ?case
  proof (cases "i < length tokens \<and> tokens ! i \<noteq> '')''")
    case c: True
    then have step: "parseList tokens i k list =
        (case parseExpression tokens i k of
           Inl e \<Rightarrow> Inl e
         | Inr (expr, nextIndex, k') \<Rightarrow> parseList tokens nextIndex k' (list @ [expr]))"
      by (subst parseList_unfold) simp
    from c have lt: "i < length tokens" and nc: "tokens ! i \<noteq> '')''" by simp_all
    from "2.IH"(1) [OF c qa lt nc] show ?thesis
    proof
      assume "\<exists>v j k'. parseExpression tokens i k = Inr (v, j, k') \<and> j \<le> length tokens
          \<and> (\<forall>d. depth_after d (drop i tokens) = depth_after d (drop j tokens))"
      then obtain v j k' where v: "parseExpression tokens i k = Inr (v, j, k')"
        and d: "\<And>d. depth_after d (drop i tokens) = depth_after d (drop j tokens)"
        by blast
      have m: "max j (i + 1) = j" using parseExpression_advances [OF v] by simp
      from "2.IH"(2) [OF c v refl refl qa] show ?thesis
        unfolding step m by (simp add: v d)
    next
      assume "parseExpression tokens i k = Inl UnmatchedOpening \<and> opens tokens i"
      then show ?thesis
        unfolding step opens_def by (auto intro: less_imp_le)
    qed
  next
    case False
    show ?thesis
    proof (cases "i < length tokens")
      case True
      with False have cl: "tokens ! i = '')''" by simp
      have "parseList tokens i k list = Inr (list, i, k)"
        using True cl by (subst parseList_unfold) simp
      with True depth_after_close [OF True cl] show ?thesis by simp
    next
      case ge: False
      then have "parseList tokens i k list = Inl UnmatchedOpening"
        by (subst parseList_unfold) simp
      with ge show ?thesis by simp
    qed
  qed
qed

lemma parse_from_unclosed:
  assumes "quotes_applied tokens" "depth_after 0 (drop i tokens) = Some d" "0 < d"
  shows "parse_from tokens i k result = Inl UnmatchedOpening"
  using assms
proof (induction tokens i k result rule: parse_from_induct)
  case (1 tokens i k result)
  note qa = "1.prems"(1) and dp = "1.prems"(2) and pos = "1.prems"(3)
  have lt: "i < length tokens"
  proof (rule ccontr)
    assume "\<not> i < length tokens"
    then have "drop i tokens = []" by simp
    with dp pos show False by simp
  qed
  have nc: "tokens ! i \<noteq> '')''"
  proof
    assume "tokens ! i = '')''"
    then have "depth_after 0 (drop i tokens) = None"
      using lt by (simp flip: Cons_nth_drop_Suc)
    with dp show False by simp
  qed
  have step: "parse_from tokens i k result =
        (case parseExpression tokens i k of
           Inl e \<Rightarrow> Inl e
         | Inr (expr, nextIndex, k') \<Rightarrow> parse_from tokens nextIndex k' (result @ [expr]))"
    using lt by (subst parse_from_unfold) simp
  from parse_unclosed(1) [OF qa lt nc, of k] show ?case
  proof
    assume "\<exists>v j k'. parseExpression tokens i k = Inr (v, j, k') \<and> j \<le> length tokens
          \<and> (\<forall>d. depth_after d (drop i tokens) = depth_after d (drop j tokens))"
    then obtain v j k' where v: "parseExpression tokens i k = Inr (v, j, k')"
      and d: "\<And>d. depth_after d (drop i tokens) = depth_after d (drop j tokens)"
      by blast
    from dp d have "depth_after 0 (drop j tokens) = Some d" by simp
    from "1.IH" [OF lt v qa this pos] show ?thesis
      unfolding step by (simp add: v)
  next
    assume "parseExpression tokens i k = Inl UnmatchedOpening \<and> opens tokens i"
    then show ?thesis unfolding step by simp
  qed
qed

text \<open>
  C8, as the code has it. When a list is still open after the last token, no \<^verbatim>\<open>)\<close> comes
  with no list open and every quote marker is followed by a token other than \<^verbatim>\<open>)\<close>, as in
  \<^verbatim>\<open>(+ 1 2\<close>, \<open>evaluate\<close> throws the error of the unmatched opening parenthesis and returns no
  result, whatever the state of the interpreter.
\<close>

theorem unclosed_list_fails:
  assumes "quotes_applied (tokenize code)"
    and "depth_after 0 (tokenize code) = Some d" and "0 < d"
  shows "evaluate fuel code s = (Inl UnmatchedOpening, s\<lparr>output_buffer := []\<rparr>)"
proof -
  have "parse code (next_id s) = Inl UnmatchedOpening"
    unfolding parse_def using assms by (intro parse_from_unclosed) simp_all
  then show ?thesis by (rule evaluate_parse_error)
qed

theorem unclosed_list_fails_witness:
  "depth_after 0 (tokenize ''(+ 1 2'') = Some 1
   \<and> evaluate 5 ''(+ 1 2'' new_interp = (Inl UnmatchedOpening, new_interp\<lparr>output_buffer := []\<rparr>)"
proof -
  have "quotes_applied (tokenize ''(+ 1 2'')" "depth_after 0 (tokenize ''(+ 1 2'') = Some 1"
    by code_simp+
  with unclosed_list_fails [of "''(+ 1 2''" 1 5 new_interp] show ?thesis by simp
qed

text \<open>
  In \<^verbatim>\<open>) (\<close> the list is never closed, and the error is that of the \<^verbatim>\<open>)\<close> before it; in
  \<^verbatim>\<open>(car '\<close> the list is never closed, and the error is the host's \<^verbatim>\<open>TypeError\<close>.
\<close>

theorem unclosed_list_counterexample:
  "tokenize '') ('' = ['')'', ''(''] \<and> fst (evaluate 5 '') ('' new_interp) = Inl UnexpectedClosing
   \<and> tokenize ''(car ' '' = [''('', ''car'', [CHR 0x27]]
   \<and> fst (evaluate 5 ''(car ' '' new_interp) = Inl TypeError"
  by code_simp

section \<open>Printing and reading back\<close>

subsection \<open>The tokens of a text\<close>


















subsection \<open>Integers\<close>
















subsection \<open>Values that are read back\<close>











end
